theory Spec2Isabelle
  imports Main "HOL-Library.Word" "HOL-Library.Signed_Division"
begin

section \<open>bmp2map: machine model\<close>

text \<open>
  The program \<^verbatim>\<open>src/roms/ppu/bkg/bmp2map.cpp\<close> is a 2003 console tool for 32-bit Windows
  (it needs \<^verbatim>\<open>io.h\<close>, \<^verbatim>\<open>conio.h\<close> and the pre-standard scope of \<^verbatim>\<open>for\<close> variables).
  The embedding follows that machine:

  \<^item> \<^verbatim>\<open>unsigned char\<close> is \<open>8 word\<close>; \<^verbatim>\<open>unsigned int\<close> is \<open>32 word\<close>;
  \<^item> \<^verbatim>\<open>int\<close> is an \<open>int\<close> kept in the range \<open>-2^31 .. 2^31 - 1\<close>: an arithmetic result
    that can leave the range is reduced by \<open>s32\<close> (two's complement wrap-around, what
    the x86 instructions compute), and a conversion from \<^verbatim>\<open>unsigned int\<close> to \<^verbatim>\<open>int\<close> is
    \<open>sint\<close>;
  \<^item> a pointer \<^verbatim>\<open>unsigned char *p\<close> is the memory seen through it, \<open>p i\<close> being
    \<^verbatim>\<open>p[i]\<close>. The source never passes the size of a block along with the pointer;
  \<^item> a read outside the input block is not detected by anything in the source: it gives
    the byte that lies there in the flat address space (taken to be readable), and the
    run goes on with it;
  \<^item> a write outside the output block destroys whatever lies there (or faults, when
    the block is the null pointer of a failed allocation), after which nothing can be
    said of the run: the model ends it with an outcome of its own.
\<close>

type_synonym byte = "8 word"

type_synonym memory = "int \<Rightarrow> byte"

definition s32 :: "int \<Rightarrow> int" where
  "s32 x = signed_take_bit 31 x"

text \<open>
  Lines 29 to 34 leave in \<open>filecontents\<close> a block of \<open>length file\<close> bytes, obtained from
  \<^verbatim>\<open>malloc\<close>, that holds the input \<open>file\<close>. \<open>beyond\<close> is the content of the address space
  around that block.
\<close>

definition load :: "byte list \<Rightarrow> memory \<Rightarrow> memory" where
  "load file beyond =
     (\<lambda>i. if 0 \<le> i \<and> i < int (length file) then file ! nat i else beyond i)"

subsection \<open>hiread (lines 10 to 14)\<close>

text \<open>
  \<^verbatim>\<open>for(int i = 0, k = 0; i < length; i++) k += unsigned int(contents[offset+i]) << (8 * i);\<close>

  \<open>k\<close> is an \<^verbatim>\<open>int\<close>: each round converts it to \<^verbatim>\<open>unsigned int\<close>, adds the shifted byte
  modulo \<open>2^32\<close> and converts the sum back. \<open>i + 1\<close> cannot overflow below \<open>len\<close>.
  A shift by 32 or more (a fifth byte) has no meaning in C++; the program only calls
  hiread with the lengths 2 and 4.
\<close>

function hiread_loop :: "memory \<Rightarrow> int \<Rightarrow> int \<Rightarrow> int \<Rightarrow> int \<Rightarrow> int" where
  "hiread_loop contents offset len i k =
     (if i < len
      then hiread_loop contents offset len (i + 1)
             (sint (word_of_int k
                    + push_bit (nat (8 * i)) (ucast (contents (s32 (offset + i)))) :: 32 word))
      else k)"
  by pat_completeness auto
termination
  by (relation "measure (\<lambda>(contents, offset, len, i, k). nat (len - i))") auto

definition hiread :: "memory \<Rightarrow> int \<Rightarrow> int \<Rightarrow> int" where
  "hiread contents offset len = hiread_loop contents offset len 0 0"

subsection \<open>The locals of main that are assigned once (lines 36 to 44)\<close>

definition paintoffset :: "memory \<Rightarrow> int" where
  "paintoffset filecontents = hiread filecontents 0xa 4"

definition width :: "memory \<Rightarrow> int" where
  "width filecontents = hiread filecontents 0x12 4"

definition height :: "memory \<Rightarrow> int" where
  "height filecontents = hiread filecontents 0x16 4"

definition bitcount :: "memory \<Rightarrow> int" where
  "bitcount filecontents = hiread filecontents 0x1c 2"

definition bytebuffer :: "memory \<Rightarrow> int" where
  "bytebuffer filecontents = hiread filecontents 0x22 4"

definition pixelslen :: "memory \<Rightarrow> int" where
  "pixelslen filecontents = bytebuffer filecontents"

definition outputlen :: "memory \<Rightarrow> int" where
  "outputlen filecontents = s32 (height filecontents * width filecontents)"

text \<open>
  Line 44, \<^verbatim>\<open>(bytebuffer - (width * height)) / height\<close>: the dividend, and the quotient
  rounded towards zero. The x86 division instruction raises a divide error when
  the divisor is 0 and when the quotient \<open>2^31\<close> does not fit (\<open>-2^31 / -1\<close>).
\<close>

definition dividend :: "memory \<Rightarrow> int" where
  "dividend filecontents =
     s32 (bytebuffer filecontents - s32 (width filecontents * height filecontents))"

definition division_faults :: "memory \<Rightarrow> bool" where
  "division_faults filecontents \<longleftrightarrow>
     height filecontents = 0
     \<or> (dividend filecontents = - (2 ^ 31) \<and> height filecontents = - 1)"

definition wastedpixelsperline :: "memory \<Rightarrow> int" where
  "wastedpixelsperline filecontents = dividend filecontents sdiv height filecontents"

subsection \<open>The copy loops (lines 45 to 53)\<close>

text \<open>
  Line 45 allocates the output block, of \<open>outputlen\<close> bytes. The copy loops end either
  with the output store and \<open>j\<close>, or at the first write outside the block.
\<close>

datatype copied = Overrun | Copied memory int

text \<open>
  The inner loop, \<^verbatim>\<open>outputcontents[j] = filecontents[offset+w]; j++;\<close> for \<open>w\<close> from 0
  while \<open>w < width\<close>. The test on \<open>j\<close> is not in the source: it tells the writes that
  fall in the block from the first one that does not. \<open>w + 1\<close> cannot overflow below
  \<open>width\<close>. The assignment \<^verbatim>\<open>w = 0\<close> of line 52 has no effect.
\<close>

function copy_row :: "memory \<Rightarrow> int \<Rightarrow> int \<Rightarrow> memory \<Rightarrow> int \<Rightarrow> copied" where
  "copy_row filecontents offset w outputcontents j =
     (if w < width filecontents
      then if 0 \<le> j \<and> j < outputlen filecontents
           then copy_row filecontents offset (w + 1)
                  (outputcontents (j := filecontents (s32 (offset + w)))) (s32 (j + 1))
           else Overrun
      else Copied outputcontents j)"
  by pat_completeness auto
termination
  by (relation "measure (\<lambda>(filecontents, offset, w, outputcontents, j).
                  nat (width filecontents - w))") auto

text \<open>
  The outer loop, for \<open>h\<close> from 1 while \<open>h <= height\<close>, with
  \<^verbatim>\<open>h++, offset -= (width + wastedpixelsperline)\<close> after each row. For \<open>height = 2^31 - 1\<close>
  the condition holds for every \<^verbatim>\<open>int\<close> and the loop cannot end by it: the result is
  an option, \<open>None\<close> when the loop runs forever.
\<close>

partial_function (option) copy_rows ::
    "memory \<Rightarrow> int \<Rightarrow> int \<Rightarrow> memory \<Rightarrow> int \<Rightarrow> copied option" where
  "copy_rows filecontents h offset outputcontents j =
     (if h \<le> height filecontents
      then case copy_row filecontents offset 0 outputcontents j of
             Overrun \<Rightarrow> Some Overrun
           | Copied outputcontents' j' \<Rightarrow>
               copy_rows filecontents (s32 (h + 1))
                 (s32 (offset - s32 (width filecontents + wastedpixelsperline filecontents)))
                 outputcontents' j'
      else Some (Copied outputcontents j))"

declare copy_rows.simps [code]

definition first_offset :: "memory \<Rightarrow> int" where
  "first_offset filecontents =
     s32 (s32 (s32 (pixelslen filecontents - width filecontents) + paintoffset filecontents)
          - wastedpixelsperline filecontents)"

text \<open>
  Lines 46 to 53 as a whole. \<open>junk\<close> is what the output store holds before the first
  write (\<^verbatim>\<open>malloc\<close> does not clear the block).
\<close>

definition extract_rows :: "memory \<Rightarrow> memory \<Rightarrow> copied option" where
  "extract_rows filecontents junk = copy_rows filecontents 1 (first_offset filecontents) junk 0"

text \<open>The value of \<open>j\<close> when the copy loops have ended: the number of bytes copied.\<close>

definition copied_count :: "memory \<Rightarrow> memory \<Rightarrow> int option" where
  "copied_count filecontents junk =
     (case extract_rows filecontents junk of
        Some (Copied outputcontents j) \<Rightarrow> Some j
      | _ \<Rightarrow> None)"

subsection \<open>The remapping pass (lines 55 to 58)\<close>

text \<open>The three branches of lines 56 to 58, on one byte.\<close>

definition symbol :: "byte \<Rightarrow> byte" where
  "symbol b = (if b = 0xff then 0x00 else if b = 0x00 then 0x01 else 0x02)"

text \<open>
  The loop over \<open>i\<close> from 0 while \<open>i < outputlen\<close>, which rewrites the output store in
  place. \<open>i + 1\<close> cannot overflow below \<open>outputlen\<close>.
\<close>

function remap :: "memory \<Rightarrow> int \<Rightarrow> memory \<Rightarrow> memory" where
  "remap filecontents i outputcontents =
     (if i < outputlen filecontents
      then remap filecontents (i + 1) (outputcontents (i := symbol (outputcontents i)))
      else outputcontents)"
  by pat_completeness auto
termination
  by (relation "measure (\<lambda>(filecontents, i, outputcontents). nat (outputlen filecontents - i))")
     auto

subsection \<open>main (lines 36 to 66)\<close>

text \<open>
  How a run ends:
  \<^item> \<open>Rejected\<close>: line 41 prints \<^verbatim>\<open>needs to be 256 colors!\<close> and returns 0; no output
    file is opened;
  \<^item> \<open>DivideError\<close>: the division of line 44 faults and the process is ended by the
    system; the output file is opened later (line 59) only, so none exists;
  \<^item> \<open>StrayWrite\<close>: a copy loop has written outside the output block;
  \<^item> \<open>Written bs\<close>: lines 59 to 61 open the output file and hand the first
    \<open>outputlen\<close> bytes of the output store to \<^verbatim>\<open>write\<close>; the file holds \<open>bs\<close> and
    main returns 1.
  The result of a run is \<open>None\<close> when the outer copy loop never ends.

  An allocation of 0 to \<open>2^31 - 1\<close> bytes is taken to succeed. For a negative
  \<open>outputlen\<close> line 45 asks \<^verbatim>\<open>malloc\<close> for more than \<open>2^31\<close> bytes (the size is
  unsigned) and gets a null pointer, which the source does not look at: the block has no
  byte, so that the first write of a copy loop, if there is one, is outside it; if there
  is none, the remapping loop does nothing, the file is opened, and \<^verbatim>\<open>write\<close>, asked
  for more than \<open>2^31\<close> bytes at a null pointer, writes none: the file is empty.
\<close>

datatype outcome = Rejected | DivideError | StrayWrite | Written "byte list"

definition emit :: "memory \<Rightarrow> memory \<Rightarrow> byte list" where
  "emit filecontents outputcontents =
     map (\<lambda>i. outputcontents (int i)) [0 ..< nat (outputlen filecontents)]"

text \<open>Lines 42 to 66: what main does once the format check has passed.\<close>

definition convert :: "memory \<Rightarrow> memory \<Rightarrow> outcome option" where
  "convert filecontents junk =
     (if division_faults filecontents then Some DivideError
      else case extract_rows filecontents junk of
             None \<Rightarrow> None
           | Some Overrun \<Rightarrow> Some StrayWrite
           | Some (Copied outputcontents j) \<Rightarrow>
               Some (Written (emit filecontents (remap filecontents 0 outputcontents))))"

definition main :: "memory \<Rightarrow> memory \<Rightarrow> outcome option" where
  "main filecontents junk =
     (if bitcount filecontents \<noteq> 8 then Some Rejected else convert filecontents junk)"

subsection \<open>The words of the specification\<close>

text \<open>
  The specification's little-endian value: the sum over \<open>i\<close> in \<open>0 .. length - 1\<close> of
  \<open>byte[offset + i] * 2^(8 * i)\<close>.
\<close>

definition le_sum :: "byte list \<Rightarrow> nat \<Rightarrow> nat \<Rightarrow> int" where
  "le_sum bytes offset len =
     sum_list (map (\<lambda>i. uint (bytes ! (offset + i)) * 2 ^ (8 * i)) [0 ..< len])"

text \<open>
  The specification's \<open>row_start(h)\<close>, over the integers:
  \<open>pixel_data_offset + pixel_data_size - width - padding_per_row
     - (h - 1) * (width + padding_per_row)\<close>.
\<close>

definition row_start :: "memory \<Rightarrow> int \<Rightarrow> int" where
  "row_start filecontents h =
     paintoffset filecontents + pixelslen filecontents - width filecontents
       - wastedpixelsperline filecontents
       - (h - 1) * (width filecontents + wastedpixelsperline filecontents)"

text \<open>
  Row \<open>r\<close> of the output (rows of \<open>width\<close> bytes, row 0 first) and stored row \<open>r\<close> of the
  source (rows of \<open>width + padding_per_row\<close> bytes from \<open>pixel_data_offset\<close> on, of which
  the first \<open>width\<close> are pixels).
\<close>

definition output_row :: "memory \<Rightarrow> byte list \<Rightarrow> int \<Rightarrow> byte list" where
  "output_row filecontents out r =
     take (nat (width filecontents)) (drop (nat (r * width filecontents)) out)"

definition stored_row :: "memory \<Rightarrow> int \<Rightarrow> byte list" where
  "stored_row filecontents r =
     map (\<lambda>c. filecontents
                (paintoffset filecontents
                 + r * (width filecontents + wastedpixelsperline filecontents) + int c))
         [0 ..< nat (width filecontents)]"

text \<open>
  The specification's Output Buffer: \<open>width * height\<close> symbols, row after row from the
  top row of the image. The source stores the bottom row first, so output row \<open>r\<close> is
  stored row \<open>height - 1 - r\<close>; byte \<open>i\<close> of the output lies in row \<open>i div width\<close> at
  column \<open>i mod width\<close>.
\<close>

definition spec_output :: "memory \<Rightarrow> byte list" where
  "spec_output filecontents =
     map (\<lambda>i. symbol (filecontents
                (paintoffset filecontents
                 + (height filecontents - 1 - int i div width filecontents)
                   * (width filecontents + wastedpixelsperline filecontents)
                 + int i mod width filecontents)))
         [0 ..< nat (width filecontents * height filecontents)]"

text \<open>
  A header whose fields agree with each other: 8 bits per pixel, a positive size, the
  pixel data made of \<open>height\<close> rows of \<open>width\<close> pixels and the same number of padding
  bytes each, and lying at offsets an \<^verbatim>\<open>int\<close> can hold.
\<close>

definition consistent :: "memory \<Rightarrow> bool" where
  "consistent filecontents \<longleftrightarrow>
     bitcount filecontents = 8
     \<and> 0 \<le> paintoffset filecontents
     \<and> 1 \<le> width filecontents
     \<and> 1 \<le> height filecontents
     \<and> width filecontents * height filecontents \<le> bytebuffer filecontents
     \<and> (bytebuffer filecontents - width filecontents * height filecontents)
         mod height filecontents = 0
     \<and> paintoffset filecontents + bytebuffer filecontents < 2 ^ 31 - 1"

subsection \<open>Test images\<close>

definition zeros :: memory where
  "zeros = (\<lambda>i. 0x00)"

definition ones :: memory where
  "ones = (\<lambda>i. 0xff)"

text \<open>
  The 2 by 2 image of the specification's scenario: a 54-byte header, no padding, the
  stored rows \<open>[0xFF, 0x10]\<close> and \<open>[0x00, 0x00]\<close>.
\<close>

definition bmp_2x2 :: "byte list" where
  "bmp_2x2 =
     [0x42, 0x4d, 0x3a, 0, 0, 0, 0, 0, 0, 0, 0x36, 0, 0, 0,
      0x28, 0, 0, 0, 2, 0, 0, 0, 2, 0, 0, 0, 1, 0, 8, 0, 0, 0, 0, 0, 4, 0, 0, 0,
      0, 0, 0, 0, 0, 0, 0, 0, 0, 0, 0, 0, 0, 0, 0, 0]
     @ [0xff, 0x10, 0x00, 0x00]"

text \<open>A 1 by 1 image with 24 bits per pixel.\<close>

definition bmp_24bit :: "byte list" where
  "bmp_24bit =
     [0x42, 0x4d, 0x3a, 0, 0, 0, 0, 0, 0, 0, 0x36, 0, 0, 0,
      0x28, 0, 0, 0, 1, 0, 0, 0, 1, 0, 0, 0, 1, 0, 24, 0, 0, 0, 0, 0, 4, 0, 0, 0,
      0, 0, 0, 0, 0, 0, 0, 0, 0, 0, 0, 0, 0, 0, 0, 0]
     @ [0x00, 0x00, 0xff, 0x00]"

text \<open>A header of width 2 and height 0, 8 bits per pixel, with no pixel data.\<close>

definition bmp_h0 :: "byte list" where
  "bmp_h0 =
     [0x42, 0x4d, 0x36, 0, 0, 0, 0, 0, 0, 0, 0x36, 0, 0, 0,
      0x28, 0, 0, 0, 2, 0, 0, 0, 0, 0, 0, 0, 1, 0, 8, 0, 0, 0, 0, 0, 0, 0, 0, 0,
      0, 0, 0, 0, 0, 0, 0, 0, 0, 0, 0, 0, 0, 0, 0, 0]"

text \<open>
  A 2 by 2 image with two padding bytes after each row: the stored rows are
  \<open>[0xFF, 0x10]\<close> and \<open>[0x00, 0xFF]\<close>.
\<close>

definition bmp_padded :: "byte list" where
  "bmp_padded =
     [0x42, 0x4d, 0x3e, 0, 0, 0, 0, 0, 0, 0, 0x36, 0, 0, 0,
      0x28, 0, 0, 0, 2, 0, 0, 0, 2, 0, 0, 0, 1, 0, 8, 0, 0, 0, 0, 0, 8, 0, 0, 0,
      0, 0, 0, 0, 0, 0, 0, 0, 0, 0, 0, 0, 0, 0, 0, 0]
     @ [0xff, 0x10, 0x00, 0x00, 0x00, 0xff, 0x00, 0x00]"

text \<open>
  A 1 by 2 image with three padding bytes after each row, whose header gives the pixel
  data one byte more than the 8 it takes (9).
\<close>

definition bmp_inexact :: "byte list" where
  "bmp_inexact =
     [0x42, 0x4d, 0x3f, 0, 0, 0, 0, 0, 0, 0, 0x36, 0, 0, 0,
      0x28, 0, 0, 0, 1, 0, 0, 0, 2, 0, 0, 0, 1, 0, 8, 0, 0, 0, 0, 0, 9, 0, 0, 0,
      0, 0, 0, 0, 0, 0, 0, 0, 0, 0, 0, 0, 0, 0, 0, 0]
     @ [0xff, 0x00, 0x00, 0x00, 0x10, 0x00, 0x00, 0x00, 0x00]"

text \<open>
  The file of \<open>bmp_2x2\<close> cut after 56 bytes: the header announces 4 pixel bytes, the
  buffer holds 2.
\<close>

definition bmp_truncated :: "byte list" where
  "bmp_truncated =
     [0x42, 0x4d, 0x3a, 0, 0, 0, 0, 0, 0, 0, 0x36, 0, 0, 0,
      0x28, 0, 0, 0, 2, 0, 0, 0, 2, 0, 0, 0, 1, 0, 8, 0, 0, 0, 0, 0, 4, 0, 0, 0,
      0, 0, 0, 0, 0, 0, 0, 0, 0, 0, 0, 0, 0, 0, 0, 0]
     @ [0xff, 0x10]"

text \<open>A 2 by 2 image stored top row first, which the format marks by the height -2.\<close>

definition bmp_topdown :: "byte list" where
  "bmp_topdown =
     [0x42, 0x4d, 0x3a, 0, 0, 0, 0, 0, 0, 0, 0x36, 0, 0, 0,
      0x28, 0, 0, 0, 2, 0, 0, 0, 0xfe, 0xff, 0xff, 0xff, 1, 0, 8, 0, 0, 0, 0, 0, 4, 0, 0, 0,
      0, 0, 0, 0, 0, 0, 0, 0, 0, 0, 0, 0, 0, 0, 0, 0]
     @ [0x00, 0x00, 0xff, 0x10]"

text \<open>
  A header of width -2 and height -2, 8 bits per pixel, followed by four bytes 0x10.
\<close>

definition bmp_negative :: "byte list" where
  "bmp_negative =
     [0x42, 0x4d, 0x3a, 0, 0, 0, 0, 0, 0, 0, 0x36, 0, 0, 0,
      0x28, 0, 0, 0, 0xfe, 0xff, 0xff, 0xff, 0xfe, 0xff, 0xff, 0xff, 1, 0, 8, 0,
      0, 0, 0, 0, 4, 0, 0, 0,
      0, 0, 0, 0, 0, 0, 0, 0, 0, 0, 0, 0, 0, 0, 0, 0]
     @ [0x10, 0x10, 0x10, 0x10]"

section \<open>Arithmetic of 32-bit integers\<close>

declare hiread_loop.simps [simp del]
declare copy_row.simps [simp del]
declare remap.simps [simp del]

lemma s32_mod: "s32 x = (x + 2 ^ 31) mod 2 ^ 32 - 2 ^ 31"
  unfolding s32_def by (simp add: signed_take_bit_eq_take_bit_shift take_bit_eq_mod)

lemma s32_range: "- (2 ^ 31) \<le> s32 x \<and> s32 x < 2 ^ 31"
  unfolding s32_mod
  using pos_mod_bound [of "2 ^ 32 :: int" "x + 2 ^ 31"] pos_mod_sign [of "2 ^ 32 :: int" "x + 2 ^ 31"]
  by simp

lemma s32_id: "- (2 ^ 31) \<le> x \<Longrightarrow> x < 2 ^ 31 \<Longrightarrow> s32 x = x"
  unfolding s32_mod by simp

lemma s32_high: "2 ^ 31 \<le> x \<Longrightarrow> x < 2 ^ 32 \<Longrightarrow> s32 x = x - 2 ^ 32"
proof -
  assume a: "2 ^ 31 \<le> x" "x < 2 ^ 32"
  have "(x + 2 ^ 31) mod 2 ^ 32 = (x + 2 ^ 31 - 2 ^ 32) mod 2 ^ 32"
    by (metis mod_diff_right_eq mod_self diff_zero)
  also have "\<dots> = x + 2 ^ 31 - 2 ^ 32"
    using a by (intro mod_pos_pos_trivial) simp_all
  finally show ?thesis unfolding s32_mod by simp
qed

lemma s32_add_left: "s32 (s32 a + b) = s32 (a + b)"
  unfolding s32_mod by (simp add: mod_simps algebra_simps)

lemma s32_diff_left: "s32 (s32 a - b) = s32 (a - b)"
  unfolding s32_mod by (simp add: mod_simps algebra_simps)

lemma s32_diff_right: "s32 (a - s32 b) = s32 (a - b)"
  unfolding s32_mod by (simp add: mod_simps algebra_simps)

section \<open>hiread\<close>

lemma hiread_step:
  "sint (word_of_int k + push_bit n (ucast (b :: byte)) :: 32 word) = s32 (k + uint b * 2 ^ n)"
proof -
  have "word_of_int k + push_bit n (ucast b :: 32 word) = (word_of_int (k + uint b * 2 ^ n) :: 32 word)"
    by (simp add: push_bit_eq_mult)
  then have "sint (word_of_int k + push_bit n (ucast b) :: 32 word)
      = sint (word_of_int (k + uint b * 2 ^ n) :: 32 word)"
    by (rule arg_cong)
  also have "\<dots> = s32 (k + uint b * 2 ^ n)"
    unfolding s32_def by (simp only: sint_sbintrunc') simp
  finally show ?thesis .
qed

lemma hiread_loop_unroll:
  "hiread_loop contents offset len i k =
     (if i < len
      then hiread_loop contents offset len (i + 1)
             (s32 (k + uint (contents (s32 (offset + i))) * 2 ^ nat (8 * i)))
      else k)"
  by (subst hiread_loop.simps) (simp only: hiread_step)

lemma s32_id_num: "- 2147483648 \<le> x \<Longrightarrow> x < 2147483648 \<Longrightarrow> s32 x = x"
  using s32_id [of x] by simp

lemma byte_lt: "uint (b :: byte) < 256"
  using uint_bounded [of b] by simp

lemma byte_ge: "0 \<le> uint (b :: byte)"
  by simp

lemma hiread_2:
  "hiread contents offset 2 =
     uint (contents (s32 offset)) + uint (contents (s32 (offset + 1))) * 256"
proof -
  have "hiread contents offset 2 =
     s32 (s32 (uint (contents (s32 offset))) + uint (contents (s32 (offset + 1))) * 256)"
    unfolding hiread_def
    by (simp add: hiread_loop_unroll [of _ _ _ 0] hiread_loop_unroll [of _ _ _ 1]
        hiread_loop_unroll [of _ _ _ 2])
  also have "\<dots> = s32 (uint (contents (s32 offset)) + uint (contents (s32 (offset + 1))) * 256)"
    by (rule s32_add_left)
  also have "\<dots> = uint (contents (s32 offset)) + uint (contents (s32 (offset + 1))) * 256"
    using byte_lt [of "contents (s32 offset)"] byte_lt [of "contents (s32 (offset + 1))"]
          byte_ge [of "contents (s32 offset)"] byte_ge [of "contents (s32 (offset + 1))"]
    by (intro s32_id_num) linarith+
  finally show ?thesis .
qed

lemma hiread_4:
  "hiread contents offset 4 =
     s32 (uint (contents (s32 offset)) + uint (contents (s32 (offset + 1))) * 2 ^ 8
          + uint (contents (s32 (offset + 2))) * 2 ^ 16
          + uint (contents (s32 (offset + 3))) * 2 ^ 24)"
proof -
  have "hiread contents offset 4 =
     s32 (s32 (s32 (s32 (uint (contents (s32 offset)))
                    + uint (contents (s32 (offset + 1))) * 2 ^ 8)
               + uint (contents (s32 (offset + 2))) * 2 ^ 16)
          + uint (contents (s32 (offset + 3))) * 2 ^ 24)"
    unfolding hiread_def
    by (simp add: hiread_loop_unroll [of _ _ _ 0] hiread_loop_unroll [of _ _ _ 1]
        hiread_loop_unroll [of _ _ _ 2] hiread_loop_unroll [of _ _ _ 3]
        hiread_loop_unroll [of _ _ _ 4])
  then show ?thesis
    by (simp only: s32_add_left)
qed

lemma bitcount_bytes:
  "bitcount filecontents = uint (filecontents 0x1c) + 256 * uint (filecontents 0x1d)"
  unfolding bitcount_def hiread_2 by (simp add: s32_id)

lemma hiread_1: "hiread contents offset 1 = uint (contents (s32 offset))"
proof -
  have "hiread contents offset 1 = s32 (uint (contents (s32 offset)))"
    unfolding hiread_def
    by (simp add: hiread_loop_unroll [of _ _ _ 0] hiread_loop_unroll [of _ _ _ 1])
  also have "\<dots> = uint (contents (s32 offset))"
    using byte_lt [of "contents (s32 offset)"] byte_ge [of "contents (s32 offset)"]
    by (intro s32_id_num) linarith+
  finally show ?thesis .
qed

lemma hiread_3:
  "hiread contents offset 3 =
     uint (contents (s32 offset)) + uint (contents (s32 (offset + 1))) * 256
       + uint (contents (s32 (offset + 2))) * 65536"
proof -
  have "hiread contents offset 3 =
     s32 (s32 (s32 (uint (contents (s32 offset)))
               + uint (contents (s32 (offset + 1))) * 256)
          + uint (contents (s32 (offset + 2))) * 65536)"
    unfolding hiread_def
    by (simp add: hiread_loop_unroll [of _ _ _ 0] hiread_loop_unroll [of _ _ _ 1]
        hiread_loop_unroll [of _ _ _ 2] hiread_loop_unroll [of _ _ _ 3])
  also have "\<dots> = s32 (uint (contents (s32 offset)) + uint (contents (s32 (offset + 1))) * 256
          + uint (contents (s32 (offset + 2))) * 65536)"
    by (simp only: s32_add_left)
  also have "\<dots> = uint (contents (s32 offset)) + uint (contents (s32 (offset + 1))) * 256
          + uint (contents (s32 (offset + 2))) * 65536"
    using byte_lt [of "contents (s32 offset)"] byte_ge [of "contents (s32 offset)"]
      byte_lt [of "contents (s32 (offset + 1))"] byte_ge [of "contents (s32 (offset + 1))"]
      byte_lt [of "contents (s32 (offset + 2))"] byte_ge [of "contents (s32 (offset + 2))"]
    by (intro s32_id_num) linarith+
  finally show ?thesis .
qed

lemma le_sum_unfold:
  "le_sum bytes offset (Suc 0) = uint (bytes ! offset)"
  "le_sum bytes offset 1 = uint (bytes ! offset)"
  "le_sum bytes offset 2 = uint (bytes ! offset) + uint (bytes ! (offset + 1)) * 256"
  "le_sum bytes offset 3 = uint (bytes ! offset) + uint (bytes ! (offset + 1)) * 256
     + uint (bytes ! (offset + 2)) * 65536"
  "le_sum bytes offset 4 = uint (bytes ! offset) + uint (bytes ! (offset + 1)) * 256
     + uint (bytes ! (offset + 2)) * 65536 + uint (bytes ! (offset + 3)) * 16777216"
  by (simp_all add: le_sum_def eval_nat_numeral)

lemma load_inside:
  assumes "0 \<le> offset" and "offset + t < int (length file)" and "0 \<le> t"
    and "int (length file) \<le> 2147483648"
  shows "load file beyond (s32 (offset + t)) = file ! (nat offset + nat t)"
proof -
  have "s32 (offset + t) = offset + t"
    using assms by (intro s32_id_num) linarith+
  then show ?thesis
    using assms by (simp add: load_def nat_add_distrib)
qed

lemma hiread_le_sum:
  assumes "1 \<le> len" and "len \<le> 4" and "0 \<le> offset"
    and "offset + len \<le> int (length file)" and "int (length file) \<le> 2147483648"
  shows "hiread (load file beyond) offset len = s32 (le_sum file (nat offset) (nat len))"
proof -
  have l: "load file beyond (s32 (offset + t)) = file ! (nat offset + nat t)"
    if "0 \<le> t" "t < len" for t
    using load_inside [of offset t "file" beyond] assms that by simp
  from assms(1,2) consider "len = 1" | "len = 2" | "len = 3" | "len = 4"
    by linarith
  then show ?thesis
  proof cases
    case 1
    have "hiread (load file beyond) offset 1 = le_sum file (nat offset) 1"
      using l [of 0] 1 by (simp add: hiread_1 le_sum_unfold)
    moreover have "s32 (le_sum file (nat offset) 1) = le_sum file (nat offset) 1"
      unfolding le_sum_unfold
      using byte_lt [of "file ! nat offset"] byte_ge [of "file ! nat offset"]
      by (intro s32_id_num) linarith+
    ultimately show ?thesis using 1 by simp
  next
    case 2
    have "hiread (load file beyond) offset 2 = le_sum file (nat offset) 2"
      using l [of 0] l [of 1] 2 by (simp add: hiread_2 le_sum_unfold)
    moreover have "s32 (le_sum file (nat offset) 2) = le_sum file (nat offset) 2"
      unfolding le_sum_unfold
      using byte_lt [of "file ! nat offset"] byte_ge [of "file ! nat offset"]
        byte_lt [of "file ! (nat offset + 1)"] byte_ge [of "file ! (nat offset + 1)"]
      by (intro s32_id_num) linarith+
    ultimately show ?thesis using 2 by simp
  next
    case 3
    have "hiread (load file beyond) offset 3 = le_sum file (nat offset) 3"
      using l [of 0] l [of 1] l [of 2] 3 by (simp add: hiread_3 le_sum_unfold)
    moreover have "s32 (le_sum file (nat offset) 3) = le_sum file (nat offset) 3"
      unfolding le_sum_unfold
      using byte_lt [of "file ! nat offset"] byte_ge [of "file ! nat offset"]
        byte_lt [of "file ! (nat offset + 1)"] byte_ge [of "file ! (nat offset + 1)"]
        byte_lt [of "file ! (nat offset + 2)"] byte_ge [of "file ! (nat offset + 2)"]
      by (intro s32_id_num) linarith+
    ultimately show ?thesis using 3 by simp
  next
    case 4
    show ?thesis
      using l [of 0] l [of 1] l [of 2] l [of 3] 4 by (simp add: hiread_4 le_sum_unfold)
  qed
qed

lemma le_sum_bounds:
  assumes "1 \<le> len" and "len \<le> (4 :: int)"
  shows "0 \<le> le_sum file offset (nat len)" and "le_sum file offset (nat len) < 4294967296"
    and "le_sum file offset (nat len) < 2147483648 \<longleftrightarrow> len \<le> 3 \<or> file ! (offset + 3) < 0x80"
proof -
  note b = byte_lt [of "file ! offset"] byte_ge [of "file ! offset"]
    byte_lt [of "file ! (offset + 1)"] byte_ge [of "file ! (offset + 1)"]
    byte_lt [of "file ! (offset + 2)"] byte_ge [of "file ! (offset + 2)"]
    byte_lt [of "file ! (offset + 3)"] byte_ge [of "file ! (offset + 3)"]
  have top: "file ! (offset + 3) < 0x80 \<longleftrightarrow> uint (file ! (offset + 3)) < 128"
    by (simp add: word_less_def)
  from assms consider "len = 1" | "len = 2" | "len = 3" | "len = 4"
    by linarith
  then have "0 \<le> le_sum file offset (nat len) \<and> le_sum file offset (nat len) < 4294967296
    \<and> (le_sum file offset (nat len) < 2147483648 \<longleftrightarrow> len \<le> 3 \<or> file ! (offset + 3) < 0x80)"
  proof cases
    case 1 then show ?thesis using b by (simp add: le_sum_unfold)
  next
    case 2 then show ?thesis using b by (simp add: le_sum_unfold)
  next
    case 3 then show ?thesis using b by (simp add: le_sum_unfold)
  next
    case 4
    have "0 \<le> le_sum file offset 4" "le_sum file offset 4 < 4294967296"
      unfolding le_sum_unfold using b by linarith+
    moreover have "le_sum file offset 4 < 2147483648 \<longleftrightarrow> uint (file ! (offset + 3)) < 128"
      unfolding le_sum_unfold using b by linarith
    ultimately show ?thesis using 4 top by simp
  qed
  then show "0 \<le> le_sum file offset (nat len)" and "le_sum file offset (nat len) < 4294967296"
    and "le_sum file offset (nat len) < 2147483648 \<longleftrightarrow> len \<le> 3 \<or> file ! (offset + 3) < 0x80"
    by simp_all
qed

lemma hiread_loop_cong:
  assumes "\<forall>t. i \<le> t \<and> t < len \<longrightarrow> c1 (s32 (offset + t)) = c2 (s32 (offset + t))"
  shows "hiread_loop c1 offset len i k = hiread_loop c2 offset len i k"
  using assms
proof (induction "nat (len - i)" arbitrary: i k)
  case 0
  then have "\<not> i < len" by simp
  then show ?case
    by (simp add: hiread_loop.simps [of _ _ _ i])
next
  case (Suc n)
  then have lt: "i < len" by linarith
  have n: "n = nat (len - (i + 1))" using Suc.hyps(2) by linarith
  have e: "c1 (s32 (offset + i)) = c2 (s32 (offset + i))"
    using Suc.prems lt by simp
  have "hiread_loop c1 offset len (i + 1) k' = hiread_loop c2 offset len (i + 1) k'" for k'
    using Suc.hyps(1) [OF n] Suc.prems by simp
  then show ?case
    using lt e by (simp add: hiread_loop.simps [of _ _ _ i])
qed

lemma hiread_inside:
  assumes "0 \<le> offset" and "offset + len \<le> int (length file)"
    and "offset + len \<le> 2147483648"
  shows "hiread (load file b1) offset len = hiread (load file b2) offset len"
  unfolding hiread_def
proof (rule hiread_loop_cong, intro allI impI)
  fix t assume t: "0 \<le> t \<and> t < len"
  have "s32 (offset + t) = offset + t"
    using assms t by (intro s32_id_num) linarith+
  then show "load file b1 (s32 (offset + t)) = load file b2 (s32 (offset + t))"
    using assms t by (simp add: load_def)
qed

lemma header_inside:
  assumes "38 \<le> length file"
  shows "paintoffset (load file b1) = paintoffset (load file b2)"
    and "width (load file b1) = width (load file b2)"
    and "height (load file b1) = height (load file b2)"
    and "bitcount (load file b1) = bitcount (load file b2)"
    and "bytebuffer (load file b1) = bytebuffer (load file b2)"
    and "wastedpixelsperline (load file b1) = wastedpixelsperline (load file b2)"
    and "consistent (load file b1) = consistent (load file b2)"
proof -
  show po: "paintoffset (load file b1) = paintoffset (load file b2)"
    unfolding paintoffset_def using assms by (intro hiread_inside) simp_all
  show w: "width (load file b1) = width (load file b2)"
    unfolding width_def using assms by (intro hiread_inside) simp_all
  show h: "height (load file b1) = height (load file b2)"
    unfolding height_def using assms by (intro hiread_inside) simp_all
  show b: "bitcount (load file b1) = bitcount (load file b2)"
    unfolding bitcount_def using assms by (intro hiread_inside) simp_all
  show bb: "bytebuffer (load file b1) = bytebuffer (load file b2)"
    unfolding bytebuffer_def using assms by (intro hiread_inside) simp_all
  show "wastedpixelsperline (load file b1) = wastedpixelsperline (load file b2)"
    unfolding wastedpixelsperline_def dividend_def by (simp only: w h bb)
  show "consistent (load file b1) = consistent (load file b2)"
    unfolding consistent_def by (simp only: po w h b bb)
qed

lemma hiread_loop_range:
  assumes "- 2147483648 \<le> k" and "k < 2147483648"
  shows "- 2147483648 \<le> hiread_loop contents offset len i k
     \<and> hiread_loop contents offset len i k < 2147483648"
  using assms
proof (induction "nat (len - i)" arbitrary: i k)
  case 0
  then have "\<not> i < len" by simp
  then show ?case
    using 0 by (simp add: hiread_loop_unroll [of _ _ _ i])
next
  case (Suc n)
  then have lt: "i < len" by linarith
  have n: "n = nat (len - (i + 1))" using Suc.hyps(2) by linarith
  let ?k = "s32 (k + uint (contents (s32 (offset + i))) * 2 ^ nat (8 * i))"
  have r: "- 2147483648 \<le> ?k" "?k < 2147483648"
    using s32_range [of "k + uint (contents (s32 (offset + i))) * 2 ^ nat (8 * i)"] by simp_all
  have "hiread_loop contents offset len i k = hiread_loop contents offset len (i + 1) ?k"
    using lt by (simp add: hiread_loop_unroll [of _ _ _ i])
  then show ?case
    using Suc.hyps(1) [OF n r] by simp
qed

lemma hiread_range:
  "- 2147483648 \<le> hiread contents offset len \<and> hiread contents offset len < 2147483648"
  unfolding hiread_def by (rule hiread_loop_range) simp_all

lemma height_range:
  "- 2147483648 \<le> height filecontents" "height filecontents < 2147483648"
  unfolding height_def using hiread_range [of filecontents "0x16" 4] by simp_all

lemma outputlen_range: "outputlen filecontents < 2147483648"
  unfolding outputlen_def
  using s32_range [of "height filecontents * width filecontents"] by simp

section \<open>The remapping pass\<close>

lemma symbol_range: "symbol b = 0x00 \<or> symbol b = 0x01 \<or> symbol b = 0x02"
  by (simp add: symbol_def)

lemma remap_at:
  "remap filecontents i outputcontents a =
     (if i \<le> a \<and> a < outputlen filecontents then symbol (outputcontents a)
      else outputcontents a)"
proof (induction filecontents i outputcontents rule: remap.induct)
  case (1 filecontents i outputcontents)
  show ?case
  proof (cases "i < outputlen filecontents")
    case True
    have "remap filecontents i outputcontents a =
        remap filecontents (i + 1) (outputcontents (i := symbol (outputcontents i))) a"
      using True by (subst remap.simps) simp
    also have "\<dots> =
        (if i + 1 \<le> a \<and> a < outputlen filecontents
         then symbol ((outputcontents (i := symbol (outputcontents i))) a)
         else (outputcontents (i := symbol (outputcontents i))) a)"
      by (rule "1.IH" [OF True])
    also have "\<dots> =
        (if i \<le> a \<and> a < outputlen filecontents then symbol (outputcontents a)
         else outputcontents a)"
      using True by auto
    finally show ?thesis .
  next
    case False
    then show ?thesis
      by (subst remap.simps) auto
  qed
qed

lemma emit_remap:
  "emit filecontents (remap filecontents 0 outputcontents) =
     map (\<lambda>i. symbol (outputcontents (int i))) [0 ..< nat (outputlen filecontents)]"
  unfolding emit_def by (rule map_cong) (auto simp: remap_at)

lemma convert_not_Rejected: "convert filecontents junk \<noteq> Some Rejected"
  unfolding convert_def by (auto split: option.splits copied.splits)

lemma main_Written:
  assumes "main filecontents junk = Some (Written out)"
  shows "bitcount filecontents = 8 \<and> \<not> division_faults filecontents \<and>
     (\<exists>copied j. extract_rows filecontents junk = Some (Copied copied j)
        \<and> out = map (\<lambda>i. symbol (copied (int i))) [0 ..< nat (outputlen filecontents)])"
  using assms unfolding main_def convert_def
  by (auto split: if_splits option.splits copied.splits simp: emit_remap)

section \<open>The copy loops\<close>

lemma copy_row_step:
  "w < width filecontents \<Longrightarrow> 0 \<le> j \<Longrightarrow> j < outputlen filecontents \<Longrightarrow>
   copy_row filecontents offset w outputcontents j =
     copy_row filecontents offset (w + 1)
       (outputcontents (j := filecontents (s32 (offset + w)))) (s32 (j + 1))"
  by (subst copy_row.simps) simp

lemma copy_row_done:
  "\<not> w < width filecontents \<Longrightarrow>
   copy_row filecontents offset w outputcontents j = Copied outputcontents j"
  by (subst copy_row.simps) simp

lemma copy_row_from:
  assumes "0 \<le> w" and "w \<le> width filecontents" and "0 \<le> j"
    and "j + (width filecontents - w) \<le> outputlen filecontents"
  shows "\<exists>out'. copy_row filecontents offset w out j = Copied out' (j + (width filecontents - w))
     \<and> (\<forall>c. w \<le> c \<and> c < width filecontents \<longrightarrow>
            out' (j + (c - w)) = filecontents (s32 (offset + c)))
     \<and> (\<forall>a. a < j \<or> j + (width filecontents - w) \<le> a \<longrightarrow> out' a = out a)"
  using assms
proof (induction "nat (width filecontents - w)" arbitrary: w out j)
  case 0
  then have "\<not> w < width filecontents" by simp
  then show ?case
    using 0 by (auto simp: copy_row_done)
next
  case (Suc n)
  then have lt: "w < width filecontents" by linarith
  let ?o = "out (j := filecontents (s32 (offset + w)))"
  have jl: "j < outputlen filecontents"
    using Suc.prems lt by linarith
  have j1: "s32 (j + 1) = j + 1"
    using Suc.prems jl outputlen_range [of filecontents] by (intro s32_id_num) linarith+
  have n: "n = nat (width filecontents - (w + 1))"
    using Suc.hyps(2) by linarith
  from Suc.hyps(1) [OF n, of "j + 1" ?o] Suc.prems lt
  obtain out' where
    r: "copy_row filecontents offset (w + 1) ?o (j + 1)
          = Copied out' (j + 1 + (width filecontents - (w + 1)))"
    and c: "\<forall>c. w + 1 \<le> c \<and> c < width filecontents \<longrightarrow>
              out' (j + 1 + (c - (w + 1))) = filecontents (s32 (offset + c))"
    and f: "\<forall>a. a < j + 1 \<or> j + 1 + (width filecontents - (w + 1)) \<le> a \<longrightarrow> out' a = ?o a"
    by force
  have "copy_row filecontents offset w out j = Copied out' (j + (width filecontents - w))"
    using r lt jl Suc.prems(3) by (simp add: copy_row_step j1)
  moreover have "\<forall>c. w \<le> c \<and> c < width filecontents \<longrightarrow>
            out' (j + (c - w)) = filecontents (s32 (offset + c))"
  proof (intro allI impI)
    fix c assume a: "w \<le> c \<and> c < width filecontents"
    show "out' (j + (c - w)) = filecontents (s32 (offset + c))"
    proof (cases "c = w")
      case True
      then show ?thesis using f by simp
    next
      case False
      then have "w + 1 \<le> c \<and> c < width filecontents" using a by linarith
      from c [rule_format, OF this] show ?thesis
        by (simp add: algebra_simps)
    qed
  qed
  moreover have "\<forall>a. a < j \<or> j + (width filecontents - w) \<le> a \<longrightarrow> out' a = out a"
    using f lt by auto
  ultimately show ?case by blast
qed

lemma first_offset_row_start: "first_offset filecontents = s32 (row_start filecontents 1)"
proof -
  have "first_offset filecontents =
      s32 (pixelslen filecontents - width filecontents + paintoffset filecontents
           - wastedpixelsperline filecontents)"
    unfolding first_offset_def by (simp only: s32_add_left s32_diff_left)
  also have "pixelslen filecontents - width filecontents + paintoffset filecontents
           - wastedpixelsperline filecontents = row_start filecontents 1"
    by (simp add: row_start_def)
  finally show ?thesis .
qed

lemma next_row_start:
  "s32 (s32 (row_start filecontents h)
        - s32 (width filecontents + wastedpixelsperline filecontents))
   = s32 (row_start filecontents (h + 1))"
  by (simp add: s32_diff_left s32_diff_right row_start_def algebra_simps)

lemma index_below:
  fixes r k c W :: int
  assumes "r < k" and "c < W" and "0 \<le> W"
  shows "r * W + c < k * W"
proof -
  have "(r + 1) * W \<le> k * W"
    using assms by (intro mult_right_mono) simp_all
  then show ?thesis
    using assms by (simp add: algebra_simps)
qed

text \<open>One round of the outer loop whose row copy stays inside the block.\<close>

lemma copy_rows_round:
  assumes "h \<le> height filecontents" and "0 \<le> width filecontents" and "0 \<le> j"
    and "j + width filecontents \<le> outputlen filecontents"
  shows "\<exists>out'. copy_rows filecontents h (s32 (row_start filecontents h)) out j =
         copy_rows filecontents (s32 (h + 1)) (s32 (row_start filecontents (h + 1)))
           out' (j + width filecontents)
     \<and> (\<forall>c. 0 \<le> c \<and> c < width filecontents \<longrightarrow>
            out' (j + c) = filecontents (s32 (s32 (row_start filecontents h) + c)))
     \<and> (\<forall>a. a < j \<or> j + width filecontents \<le> a \<longrightarrow> out' a = out a)"
proof -
  from copy_row_from [of 0 filecontents j "s32 (row_start filecontents h)" out] assms
  obtain out' where
    r: "copy_row filecontents (s32 (row_start filecontents h)) 0 out j
          = Copied out' (j + width filecontents)"
    and c: "\<forall>c. 0 \<le> c \<and> c < width filecontents \<longrightarrow>
              out' (j + c) = filecontents (s32 (s32 (row_start filecontents h) + c))"
    and f: "\<forall>a. a < j \<or> j + width filecontents \<le> a \<longrightarrow> out' a = out a"
    by force
  have "copy_rows filecontents h (s32 (row_start filecontents h)) out j =
         copy_rows filecontents (s32 (h + 1)) (s32 (row_start filecontents (h + 1)))
           out' (j + width filecontents)"
    using assms(1) r by (subst copy_rows.simps) (simp add: next_row_start)
  then show ?thesis
    using c f by blast
qed

lemma rows_reach:
  assumes "0 \<le> width filecontents"
    and "height filecontents * width filecontents \<le> outputlen filecontents"
    and "1 \<le> h" and "h \<le> height filecontents"
  shows "\<exists>out. extract_rows filecontents junk =
         copy_rows filecontents h (s32 (row_start filecontents h)) out
           ((h - 1) * width filecontents)
     \<and> (\<forall>r c. 0 \<le> r \<and> r < h - 1 \<and> 0 \<le> c \<and> c < width filecontents \<longrightarrow>
          out (r * width filecontents + c)
            = filecontents (s32 (s32 (row_start filecontents (r + 1)) + c)))"
  using assms(3,4)
proof (induction "nat (h - 1)" arbitrary: h)
  case 0
  then have "h = 1" by linarith
  then show ?case
    by (auto simp: extract_rows_def first_offset_row_start)
next
  case (Suc n)
  let ?W = "width filecontents" and ?H = "height filecontents"
  have h2: "2 \<le> h" using Suc.hyps(2) by linarith
  have n: "n = nat (h - 1 - 1)" using Suc.hyps(2) by linarith
  from Suc.hyps(1) [OF n] h2 Suc.prems obtain out where
    e: "extract_rows filecontents junk =
         copy_rows filecontents (h - 1) (s32 (row_start filecontents (h - 1))) out
           ((h - 1 - 1) * ?W)"
    and inv: "\<forall>r c. 0 \<le> r \<and> r < h - 1 - 1 \<and> 0 \<le> c \<and> c < ?W \<longrightarrow>
          out (r * ?W + c) = filecontents (s32 (s32 (row_start filecontents (r + 1)) + c))"
    by force
  have hw: "(h - 1) * ?W \<le> ?H * ?W"
    using Suc.prems assms(1) by (intro mult_right_mono) simp_all
  have j0: "0 \<le> (h - 1 - 1) * ?W"
    using h2 assms(1) by simp
  have j1: "(h - 1 - 1) * ?W + ?W \<le> outputlen filecontents"
    using hw assms(2) by (simp add: algebra_simps)
  have "s32 h = h"
    using h2 Suc.prems height_range(2) [of filecontents] by (intro s32_id_num) linarith+
  then have hs: "s32 (h - 1 + 1) = h"
    by simp
  from copy_rows_round [of "h - 1" filecontents "(h - 1 - 1) * ?W" out] Suc.prems assms(1) j0 j1
  obtain out' where
    r: "copy_rows filecontents (h - 1) (s32 (row_start filecontents (h - 1))) out
          ((h - 1 - 1) * ?W) =
        copy_rows filecontents (s32 (h - 1 + 1)) (s32 (row_start filecontents (h - 1 + 1)))
          out' ((h - 1 - 1) * ?W + ?W)"
    and c: "\<forall>c. 0 \<le> c \<and> c < ?W \<longrightarrow>
            out' ((h - 1 - 1) * ?W + c)
              = filecontents (s32 (s32 (row_start filecontents (h - 1)) + c))"
    and f: "\<forall>a. a < (h - 1 - 1) * ?W \<or> (h - 1 - 1) * ?W + ?W \<le> a \<longrightarrow> out' a = out a"
    by force
  have "extract_rows filecontents junk =
         copy_rows filecontents h (s32 (row_start filecontents h)) out' ((h - 1) * ?W)"
    using e r hs by (simp add: algebra_simps)
  moreover have "\<forall>r c. 0 \<le> r \<and> r < h - 1 \<and> 0 \<le> c \<and> c < ?W \<longrightarrow>
          out' (r * ?W + c) = filecontents (s32 (s32 (row_start filecontents (r + 1)) + c))"
  proof (intro allI impI)
    fix r c assume a: "0 \<le> r \<and> r < h - 1 \<and> 0 \<le> c \<and> c < ?W"
    show "out' (r * ?W + c) = filecontents (s32 (s32 (row_start filecontents (r + 1)) + c))"
    proof (cases "r = h - 1 - 1")
      case True
      then show ?thesis
        using c [rule_format, of c] a by simp
    next
      case False
      then have lt: "r < h - 1 - 1" using a by linarith
      have "r * ?W + c < (h - 1 - 1) * ?W"
        using lt a assms(1) by (intro index_below) simp_all
      then have "out' (r * ?W + c) = out (r * ?W + c)"
        using f by simp
      then show ?thesis
        using inv a lt by simp
    qed
  qed
  ultimately show ?case by blast
qed

lemma rows_complete:
  assumes "0 \<le> width filecontents"
    and "height filecontents * width filecontents \<le> outputlen filecontents"
    and "1 \<le> height filecontents" and "height filecontents < 2147483647"
  shows "\<exists>out. extract_rows filecontents junk =
         Some (Copied out (height filecontents * width filecontents))
     \<and> (\<forall>r c. 0 \<le> r \<and> r < height filecontents \<and> 0 \<le> c \<and> c < width filecontents \<longrightarrow>
          out (r * width filecontents + c)
            = filecontents (s32 (s32 (row_start filecontents (r + 1)) + c)))"
proof -
  let ?W = "width filecontents" and ?H = "height filecontents"
  from rows_reach [OF assms(1,2,3), of junk] obtain out where
    e: "extract_rows filecontents junk =
         copy_rows filecontents ?H (s32 (row_start filecontents ?H)) out ((?H - 1) * ?W)"
    and inv: "\<forall>r c. 0 \<le> r \<and> r < ?H - 1 \<and> 0 \<le> c \<and> c < ?W \<longrightarrow>
          out (r * ?W + c) = filecontents (s32 (s32 (row_start filecontents (r + 1)) + c))"
    by force
  have j0: "0 \<le> (?H - 1) * ?W"
    using assms(1,3) by simp
  have j1: "(?H - 1) * ?W + ?W \<le> outputlen filecontents"
    using assms(2) by (simp add: algebra_simps)
  have hs: "s32 (?H + 1) = ?H + 1"
    using assms(3,4) by (intro s32_id_num) linarith+
  from copy_rows_round [of ?H filecontents "(?H - 1) * ?W" out] assms(1) j0 j1
  obtain out' where
    r: "copy_rows filecontents ?H (s32 (row_start filecontents ?H)) out ((?H - 1) * ?W) =
        copy_rows filecontents (s32 (?H + 1)) (s32 (row_start filecontents (?H + 1)))
          out' ((?H - 1) * ?W + ?W)"
    and c: "\<forall>c. 0 \<le> c \<and> c < ?W \<longrightarrow>
            out' ((?H - 1) * ?W + c)
              = filecontents (s32 (s32 (row_start filecontents ?H) + c))"
    and f: "\<forall>a. a < (?H - 1) * ?W \<or> (?H - 1) * ?W + ?W \<le> a \<longrightarrow> out' a = out a"
    by force
  have "copy_rows filecontents (?H + 1) (s32 (row_start filecontents (?H + 1)))
          out' ((?H - 1) * ?W + ?W) = Some (Copied out' ((?H - 1) * ?W + ?W))"
    by (subst copy_rows.simps) simp
  then have "extract_rows filecontents junk = Some (Copied out' (?H * ?W))"
    using e r hs by (simp add: algebra_simps)
  moreover have "\<forall>r c. 0 \<le> r \<and> r < ?H \<and> 0 \<le> c \<and> c < ?W \<longrightarrow>
          out' (r * ?W + c) = filecontents (s32 (s32 (row_start filecontents (r + 1)) + c))"
  proof (intro allI impI)
    fix r c assume a: "0 \<le> r \<and> r < ?H \<and> 0 \<le> c \<and> c < ?W"
    show "out' (r * ?W + c) = filecontents (s32 (s32 (row_start filecontents (r + 1)) + c))"
    proof (cases "r = ?H - 1")
      case True
      then show ?thesis
        using c [rule_format, of c] a by simp
    next
      case False
      then have lt: "r < ?H - 1" using a by linarith
      have "r * ?W + c < (?H - 1) * ?W"
        using lt a assms(1) by (intro index_below) simp_all
      then have "out' (r * ?W + c) = out (r * ?W + c)"
        using f by simp
      then show ?thesis
        using inv a lt by simp
    qed
  qed
  ultimately show ?thesis by blast
qed

lemma rows_no_write:
  assumes "width filecontents \<le> 0" and "height filecontents < 2147483647" and "1 \<le> h"
  shows "copy_rows filecontents h offset out j = Some (Copied out j)"
  using assms(3)
proof (induction "nat (height filecontents + 1 - h)" arbitrary: h offset)
  case 0
  then have "\<not> h \<le> height filecontents" by linarith
  then show ?case
    by (subst copy_rows.simps) simp
next
  case (Suc n)
  then have le: "h \<le> height filecontents" by linarith
  have h1: "s32 (h + 1) = h + 1"
    using assms(2) le Suc.prems by (intro s32_id_num) linarith+
  have n: "n = nat (height filecontents + 1 - (h + 1))"
    using Suc.hyps(2) by linarith
  have "copy_row filecontents offset 0 out j = Copied out j"
    using assms(1) by (simp add: copy_row_done)
  then have "copy_rows filecontents h offset out j =
      copy_rows filecontents (h + 1)
        (s32 (offset - s32 (width filecontents + wastedpixelsperline filecontents))) out j"
    using le by (subst copy_rows.simps) (simp add: h1)
  then show ?case
    using Suc.hyps(1) [OF n] Suc.prems by simp
qed

section \<open>Runs on a consistent header\<close>

lemma consistent_facts:
  assumes "consistent filecontents"
  shows "bitcount filecontents = 8"
    and "0 \<le> paintoffset filecontents"
    and "1 \<le> width filecontents"
    and "1 \<le> height filecontents"
    and "height filecontents < 2147483647"
    and "0 \<le> wastedpixelsperline filecontents"
    and "bytebuffer filecontents
           = height filecontents * (width filecontents + wastedpixelsperline filecontents)"
    and "paintoffset filecontents + bytebuffer filecontents < 2147483647"
    and "outputlen filecontents = width filecontents * height filecontents"
    and "\<not> division_faults filecontents"
proof -
  let ?W = "width filecontents" and ?H = "height filecontents"
  let ?B = "bytebuffer filecontents" and ?P = "wastedpixelsperline filecontents"
  from assms have b: "bitcount filecontents = 8" and po: "0 \<le> paintoffset filecontents"
    and w: "1 \<le> ?W" and h: "1 \<le> ?H" and wh: "?W * ?H \<le> ?B"
    and m: "(?B - ?W * ?H) mod ?H = 0" and top: "paintoffset filecontents + ?B < 2147483647"
    by (simp_all add: consistent_def)
  have hwh: "?H \<le> ?W * ?H"
    using w h mult_right_mono [of 1 ?W ?H] by simp
  have wh0: "0 \<le> ?W * ?H"
    using w h by simp
  have s: "s32 (?W * ?H) = ?W * ?H"
    using wh0 wh top po by (intro s32_id_num) linarith+
  have d: "dividend filecontents = ?B - ?W * ?H"
    unfolding dividend_def s using wh wh0 top po by (intro s32_id_num) linarith+
  have p: "?P = (?B - ?W * ?H) div ?H"
    unfolding wastedpixelsperline_def d using wh h
    by (cases "?B - ?W * ?H = 0") (simp_all add: signed_divide_int_def)
  have ph: "?P * ?H = ?B - ?W * ?H"
    unfolding p using m by (simp add: mod_eq_0_iff_dvd)
  show "bitcount filecontents = 8" by (rule b)
  show "0 \<le> paintoffset filecontents" by (rule po)
  show "1 \<le> ?W" by (rule w)
  show "1 \<le> ?H" by (rule h)
  show "?H < 2147483647" using hwh wh top po by linarith
  show "0 \<le> ?P" unfolding p using wh h by (simp add: pos_imp_zdiv_nonneg_iff)
  show "?B = ?H * (?W + ?P)" using ph by (simp add: algebra_simps)
  show "paintoffset filecontents + ?B < 2147483647" by (rule top)
  show "outputlen filecontents = ?W * ?H"
    unfolding outputlen_def using s by (simp add: mult.commute)
  show "\<not> division_faults filecontents"
    unfolding division_faults_def using h by simp
qed

text \<open>
  The usual layout of the format, each row padded to a multiple of four bytes, gives a
  consistent header.
\<close>

lemma standard_layout_consistent:
  assumes "bitcount filecontents = 8" and "0 \<le> paintoffset filecontents"
    and "1 \<le> width filecontents" and "1 \<le> height filecontents"
    and "bytebuffer filecontents
           = height filecontents * (4 * ((width filecontents + 3) div 4))"
    and "paintoffset filecontents + bytebuffer filecontents < 2 ^ 31 - 1"
  shows "consistent filecontents"
proof -
  let ?W = "width filecontents" and ?H = "height filecontents"
  let ?S = "4 * ((?W + 3) div 4)"
  have ws: "?W \<le> ?S"
    by presburger
  have d: "bytebuffer filecontents - ?W * ?H = ?H * (?S - ?W)"
    unfolding assms(5) by (simp add: algebra_simps)
  have "0 \<le> ?H * (?S - ?W)"
    using ws assms(4) by simp
  then have le: "?W * ?H \<le> bytebuffer filecontents"
    using d by linarith
  have "(bytebuffer filecontents - ?W * ?H) mod ?H = 0"
    unfolding d by simp
  then show ?thesis
    unfolding consistent_def using assms(1,2,3,4,6) le by simp
qed

lemma row_start_consistent:
  assumes "consistent filecontents"
  shows "row_start filecontents h =
     paintoffset filecontents
       + (height filecontents - h) * (width filecontents + wastedpixelsperline filecontents)"
  unfolding row_start_def pixelslen_def consistent_facts(7) [OF assms]
  by (simp add: algebra_simps)

lemma row_bytes_inside:
  assumes "consistent filecontents" and "1 \<le> h" and "h \<le> height filecontents"
    and "0 \<le> c" and "c < width filecontents"
  shows "paintoffset filecontents \<le> row_start filecontents h + c"
    and "row_start filecontents h + c < paintoffset filecontents + bytebuffer filecontents"
proof -
  let ?W = "width filecontents" and ?H = "height filecontents"
  let ?P = "wastedpixelsperline filecontents"
  note f = consistent_facts [OF assms(1)]
  have "0 \<le> (?H - h) * (?W + ?P)"
    using assms f(3,6) by simp
  then show "paintoffset filecontents \<le> row_start filecontents h + c"
    unfolding row_start_consistent [OF assms(1)] using assms(4) by simp
  have "(?H - h) * (?W + ?P) + c < (?H - h + 1) * (?W + ?P)"
    using assms(5) f(6) by (simp add: algebra_simps)
  also have "\<dots> \<le> ?H * (?W + ?P)"
    using assms(2) f(3,6) by (intro mult_right_mono) simp_all
  finally show "row_start filecontents h + c < paintoffset filecontents + bytebuffer filecontents"
    unfolding row_start_consistent [OF assms(1)] using f(7) by simp
qed

lemma row_start_fits:
  assumes "consistent filecontents" and "1 \<le> h" and "h \<le> height filecontents"
  shows "s32 (row_start filecontents h) = row_start filecontents h"
proof -
  note f = consistent_facts [OF assms(1)]
  have "paintoffset filecontents \<le> row_start filecontents h + 0"
    and "row_start filecontents h + 0 < paintoffset filecontents + bytebuffer filecontents"
    using row_bytes_inside [OF assms, of 0] f(3) by simp_all
  then show ?thesis
    using f(2,8) by (intro s32_id_num) linarith+
qed

lemma div_mod_index:
  fixes i W H :: int
  assumes "0 \<le> i" and "i < W * H" and "1 \<le> W"
  shows "0 \<le> i div W" and "i div W < H" and "0 \<le> i mod W" and "i mod W < W"
    and "i div W * W + i mod W = i"
proof -
  show "0 \<le> i div W" using assms by (simp add: pos_imp_zdiv_nonneg_iff)
  show "i div W < H"
  proof (rule ccontr)
    assume "\<not> i div W < H"
    then have "H * W \<le> i div W * W"
      using assms(3) by (intro mult_right_mono) simp_all
    moreover have "i div W * W \<le> i"
      using assms(3) by (simp add: minus_mod_eq_div_mult [symmetric])
    ultimately show False
      using assms(2) by (simp add: mult.commute)
  qed
  show "0 \<le> i mod W" using assms by simp
  show "i mod W < W" using assms by simp
  show "i div W * W + i mod W = i" by simp
qed

lemma consistent_run:
  assumes "consistent filecontents"
  shows "main filecontents junk = Some (Written (spec_output filecontents))"
proof -
  let ?W = "width filecontents" and ?H = "height filecontents"
  note f = consistent_facts [OF assms]
  have w0: "0 \<le> ?W" using f(3) by simp
  have ol: "?H * ?W \<le> outputlen filecontents"
    using f(9) by (simp add: mult.commute)
  from rows_complete [OF w0 ol f(4,5), of junk] obtain out where
    e: "extract_rows filecontents junk = Some (Copied out (?H * ?W))"
    and inv: "\<forall>r c. 0 \<le> r \<and> r < ?H \<and> 0 \<le> c \<and> c < ?W \<longrightarrow>
          out (r * ?W + c) = filecontents (s32 (s32 (row_start filecontents (r + 1)) + c))"
    by force
  have p0: "0 \<le> ?W * ?H" using f(3,4) by simp
  have m: "main filecontents junk =
      Some (Written (map (\<lambda>i. symbol (out (int i))) [0 ..< nat (?W * ?H)]))"
    unfolding main_def convert_def using f(1,10) e p0
    by (simp add: emit_remap f(9))
  have "map (\<lambda>i. symbol (out (int i))) [0 ..< nat (?W * ?H)] = spec_output filecontents"
    unfolding spec_output_def
  proof (rule map_cong [OF refl])
    fix i assume "i \<in> set [0 ..< nat (?W * ?H)]"
    then have i: "0 \<le> int i" "int i < ?W * ?H" by auto
    note d = div_mod_index [OF i f(3)]
    have r1: "1 \<le> int i div ?W + 1" "int i div ?W + 1 \<le> ?H"
      using d(1,2) by simp_all
    have s0: "s32 (row_start filecontents (int i div ?W + 1))
                = row_start filecontents (int i div ?W + 1)"
      by (rule row_start_fits [OF assms r1])
    have "paintoffset filecontents \<le> row_start filecontents (int i div ?W + 1) + int i mod ?W"
      and "row_start filecontents (int i div ?W + 1) + int i mod ?W
             < paintoffset filecontents + bytebuffer filecontents"
      using row_bytes_inside [OF assms r1 d(3,4)] by simp_all
    then have s1: "s32 (row_start filecontents (int i div ?W + 1) + int i mod ?W)
                = row_start filecontents (int i div ?W + 1) + int i mod ?W"
      using f(2,8) by (intro s32_id_num) linarith+
    have "out (int i) = out (int i div ?W * ?W + int i mod ?W)"
      using d(5) by simp
    also have "\<dots> = filecontents
        (s32 (s32 (row_start filecontents (int i div ?W + 1)) + int i mod ?W))"
      using inv d(1-4) by blast
    also have "\<dots> = filecontents (row_start filecontents (int i div ?W + 1) + int i mod ?W)"
      by (simp only: s0 s1)
    finally show "symbol (out (int i)) =
        symbol (filecontents (paintoffset filecontents
           + (?H - 1 - int i div ?W) * (?W + wastedpixelsperline filecontents) + int i mod ?W))"
      by (simp add: row_start_consistent [OF assms] algebra_simps)
  qed
  then show ?thesis using m by simp
qed

lemma spec_output_length:
  "length (spec_output filecontents) = nat (width filecontents * height filecontents)"
  by (simp add: spec_output_def)

lemma spec_output_nth:
  assumes "1 \<le> width filecontents" and "0 \<le> r" and "r < height filecontents"
    and "0 \<le> c" and "c < width filecontents"
  shows "nat (r * width filecontents + c) < length (spec_output filecontents)"
    and "spec_output filecontents ! nat (r * width filecontents + c) =
      symbol (filecontents (paintoffset filecontents
        + (height filecontents - 1 - r)
          * (width filecontents + wastedpixelsperline filecontents) + c))"
proof -
  let ?W = "width filecontents" and ?H = "height filecontents"
  have lt: "r * ?W + c < ?H * ?W"
    using assms by (intro index_below) simp_all
  have ge: "0 \<le> r * ?W + c" using assms by simp
  show l: "nat (r * ?W + c) < length (spec_output filecontents)"
    using lt ge by (simp add: spec_output_length mult.commute)
  have dv: "(r * ?W + c) div ?W = r"
    using assms by (simp add: div_pos_pos_trivial)
  have md: "(r * ?W + c) mod ?W = c"
    using assms by (simp add: mod_pos_pos_trivial)
  show "spec_output filecontents ! nat (r * ?W + c) =
      symbol (filecontents (paintoffset filecontents
        + (?H - 1 - r) * (?W + wastedpixelsperline filecontents) + c))"
    using l ge assms unfolding spec_output_def
    by (simp add: div_pos_pos_trivial mod_pos_pos_trivial)
qed

lemma output_row_spec:
  assumes "1 \<le> width filecontents" and "0 \<le> r" and "r < height filecontents"
  shows "output_row filecontents (spec_output filecontents) r =
      map symbol (stored_row filecontents (height filecontents - 1 - r))"
proof (rule nth_equalityI)
  let ?W = "width filecontents" and ?H = "height filecontents"
  have "(r + 1) * ?W \<le> ?H * ?W"
    using assms by (intro mult_right_mono) simp_all
  then have le: "r * ?W + ?W \<le> ?W * ?H"
    by (simp add: algebra_simps)
  have r0: "0 \<le> r * ?W" using assms by simp
  show len: "length (output_row filecontents (spec_output filecontents) r) =
      length (map symbol (stored_row filecontents (?H - 1 - r)))"
    unfolding output_row_def stored_row_def using le r0 assms(1)
    by (simp add: spec_output_length)
  fix i assume "i < length (output_row filecontents (spec_output filecontents) r)"
  then have i: "int i < ?W"
    using len by (simp add: stored_row_def)
  have n: "nat (r * ?W) + i = nat (r * ?W + int i)"
    using r0 by simp
  have "output_row filecontents (spec_output filecontents) r ! i =
      spec_output filecontents ! nat (r * ?W + int i)"
    unfolding output_row_def using i le r0 n
    by (simp add: spec_output_length)
  also have "\<dots> = symbol (filecontents (paintoffset filecontents
        + (?H - 1 - r) * (?W + wastedpixelsperline filecontents) + int i))"
    using spec_output_nth(2) [OF assms(1,2,3), of "int i"] i by simp
  also have "\<dots> = map symbol (stored_row filecontents (?H - 1 - r)) ! i"
    unfolding stored_row_def using i by simp
  finally show "output_row filecontents (spec_output filecontents) r ! i =
      map symbol (stored_row filecontents (?H - 1 - r)) ! i" .
qed

lemma pixel_index_inside:
  assumes "consistent filecontents" and "0 \<le> r" and "r < height filecontents"
    and "0 \<le> c" and "c < width filecontents"
  shows "0 \<le> paintoffset filecontents
           + (height filecontents - 1 - r)
             * (width filecontents + wastedpixelsperline filecontents) + c"
    and "paintoffset filecontents
           + (height filecontents - 1 - r)
             * (width filecontents + wastedpixelsperline filecontents) + c
         < paintoffset filecontents + bytebuffer filecontents"
proof -
  have e: "height filecontents - (r + 1) = height filecontents - 1 - r"
    by simp
  have "paintoffset filecontents \<le> row_start filecontents (r + 1) + c"
    and "row_start filecontents (r + 1) + c
           < paintoffset filecontents + bytebuffer filecontents"
    using row_bytes_inside [OF assms(1), of "r + 1" c] assms(2-5) by simp_all
  then show "0 \<le> paintoffset filecontents
           + (height filecontents - 1 - r)
             * (width filecontents + wastedpixelsperline filecontents) + c"
    and "paintoffset filecontents
           + (height filecontents - 1 - r)
             * (width filecontents + wastedpixelsperline filecontents) + c
         < paintoffset filecontents + bytebuffer filecontents"
    unfolding row_start_consistent [OF assms(1)] e
    using consistent_facts(2) [OF assms(1)] by linarith+
qed

lemma spec_output_inside:
  assumes "consistent (load file beyond)"
    and "paintoffset (load file beyond) + bytebuffer (load file beyond) \<le> int (length file)"
    and "0 \<le> r" and "r < height (load file beyond)"
    and "0 \<le> c" and "c < width (load file beyond)"
  shows "spec_output (load file beyond) ! nat (r * width (load file beyond) + c) =
     symbol (file ! nat (paintoffset (load file beyond)
        + (height (load file beyond) - 1 - r)
          * (width (load file beyond) + wastedpixelsperline (load file beyond)) + c))"
proof -
  note p = pixel_index_inside [OF assms(1,3,4,5,6)]
  show ?thesis
    unfolding spec_output_nth(2) [OF consistent_facts(3) [OF assms(1)] assms(3,4,5,6)]
    using p assms(2) by (simp add: load_def)
qed

lemma spec_output_frame:
  assumes "38 \<le> length file" and "consistent (load file b1)"
    and "paintoffset (load file b1) + bytebuffer (load file b1) \<le> int (length file)"
  shows "spec_output (load file b1) = spec_output (load file b2)"
proof -
  note h = header_inside [OF assms(1), of b1 b2]
  note f = consistent_facts [OF assms(2)]
  let ?W = "width (load file b1)" and ?H = "height (load file b1)"
  have "spec_output (load file b1) =
      map (\<lambda>i. symbol (load file b2 (paintoffset (load file b1)
                 + (?H - 1 - int i div ?W) * (?W + wastedpixelsperline (load file b1))
                 + int i mod ?W)))
         [0 ..< nat (?W * ?H)]"
    unfolding spec_output_def
  proof (rule map_cong [OF refl])
    fix i assume "i \<in> set [0 ..< nat (?W * ?H)]"
    then have i: "0 \<le> int i" "int i < ?W * ?H" by auto
    note d = div_mod_index [OF i f(3)]
    note p = pixel_index_inside [OF assms(2) d(1,2,3,4)]
    show "symbol (load file b1 (paintoffset (load file b1)
                 + (?H - 1 - int i div ?W) * (?W + wastedpixelsperline (load file b1))
                 + int i mod ?W)) =
          symbol (load file b2 (paintoffset (load file b1)
                 + (?H - 1 - int i div ?W) * (?W + wastedpixelsperline (load file b1))
                 + int i mod ?W))"
      using p assms(3) by (simp add: load_def)
  qed
  then show ?thesis
    unfolding spec_output_def [of "load file b2"] by (simp only: h)
qed

section \<open>Runs that complete\<close>

lemma outputlen_product:
  assumes "0 \<le> width filecontents" and "1 \<le> height filecontents"
    and "height filecontents * width filecontents < 2147483648"
  shows "outputlen filecontents = height filecontents * width filecontents"
proof -
  have "0 \<le> height filecontents * width filecontents"
    using assms(1,2) by simp
  then show ?thesis
    unfolding outputlen_def using assms(3) by (intro s32_id_num) linarith+
qed

lemma extract_rows_returns:
  assumes "height filecontents < 2147483647"
    and "1 \<le> height filecontents \<and> 1 \<le> width filecontents \<longrightarrow>
           height filecontents * width filecontents < 2147483648"
  shows "\<exists>out j. extract_rows filecontents junk = Some (Copied out j)"
proof -
  consider "height filecontents < 1" | "1 \<le> height filecontents" "width filecontents \<le> 0"
    | "1 \<le> height filecontents" "1 \<le> width filecontents"
    by linarith
  then show ?thesis
  proof cases
    case 1
    then show ?thesis
      unfolding extract_rows_def by (subst copy_rows.simps) simp
  next
    case 2
    then show ?thesis
      unfolding extract_rows_def using rows_no_write [OF 2(2) assms(1), of 1] by simp
  next
    case 3
    have w0: "0 \<le> width filecontents" using 3(2) by simp
    have "height filecontents * width filecontents \<le> outputlen filecontents"
      using outputlen_product [OF w0 3(1)] assms(2) 3 by simp
    from rows_complete [OF w0 this 3(1) assms(1), of junk] show ?thesis
      by blast
  qed
qed

lemma accepted_run:
  assumes "bitcount filecontents = 8" and "1 \<le> height filecontents"
    and "height filecontents < 2147483647" and "0 \<le> width filecontents"
    and "height filecontents * width filecontents < 2147483648"
  shows "\<exists>out. main filecontents junk = Some (Written out)
     \<and> length out = nat (width filecontents * height filecontents)
     \<and> (\<forall>r c. 0 \<le> r \<and> r < height filecontents \<and> 0 \<le> c \<and> c < width filecontents \<longrightarrow>
          out ! nat (r * width filecontents + c)
            = symbol (filecontents (s32 (s32 (row_start filecontents (r + 1)) + c))))"
proof -
  let ?W = "width filecontents" and ?H = "height filecontents"
  have ol: "outputlen filecontents = ?H * ?W"
    by (rule outputlen_product [OF assms(4,2,5)])
  then have le: "?H * ?W \<le> outputlen filecontents"
    by simp
  from rows_complete [OF assms(4) le assms(2,3), of junk] obtain copied where
    e: "extract_rows filecontents junk = Some (Copied copied (?H * ?W))"
    and inv: "\<forall>r c. 0 \<le> r \<and> r < ?H \<and> 0 \<le> c \<and> c < ?W \<longrightarrow>
          copied (r * ?W + c) = filecontents (s32 (s32 (row_start filecontents (r + 1)) + c))"
    by force
  let ?out = "map (\<lambda>i. symbol (copied (int i))) [0 ..< nat (?W * ?H)]"
  have p0: "0 \<le> ?H * ?W" using assms(2,4) by simp
  have nf: "\<not> division_faults filecontents"
    using assms(2) by (simp add: division_faults_def)
  have m: "main filecontents junk = Some (Written ?out)"
    unfolding main_def convert_def using assms(1) nf e p0 ol
    by (simp add: emit_remap mult.commute)
  have "\<forall>r c. 0 \<le> r \<and> r < ?H \<and> 0 \<le> c \<and> c < ?W \<longrightarrow>
          ?out ! nat (r * ?W + c)
            = symbol (filecontents (s32 (s32 (row_start filecontents (r + 1)) + c)))"
  proof (intro allI impI)
    fix r c assume a: "0 \<le> r \<and> r < ?H \<and> 0 \<le> c \<and> c < ?W"
    have lt: "r * ?W + c < ?H * ?W"
      using a assms(4) by (intro index_below) simp_all
    have ge: "0 \<le> r * ?W + c" using a assms(4) by simp
    have "?out ! nat (r * ?W + c) = symbol (copied (r * ?W + c))"
      using lt ge by (simp add: mult.commute)
    then show "?out ! nat (r * ?W + c)
            = symbol (filecontents (s32 (s32 (row_start filecontents (r + 1)) + c)))"
      using inv a by simp
  qed
  then show ?thesis
    using m by (intro exI [of _ ?out]) simp
qed

lemma accepted_copied:
  assumes "bitcount filecontents = 8" and "1 \<le> height filecontents"
    and "height filecontents < 2147483647" and "0 \<le> width filecontents"
    and "height filecontents * width filecontents < 2147483648"
  shows "\<exists>out copied. main filecontents junk = Some (Written out)
     \<and> extract_rows filecontents junk
           = Some (Copied copied (height filecontents * width filecontents))
     \<and> length out = nat (width filecontents * height filecontents)
     \<and> (\<forall>r c. 0 \<le> r \<and> r < height filecontents \<and> 0 \<le> c \<and> c < width filecontents \<longrightarrow>
          copied (r * width filecontents + c)
            = filecontents (s32 (s32 (row_start filecontents (r + 1)) + c))
          \<and> out ! nat (r * width filecontents + c)
            = symbol (filecontents (s32 (s32 (row_start filecontents (r + 1)) + c))))"
proof -
  let ?W = "width filecontents" and ?H = "height filecontents"
  have ol: "outputlen filecontents = ?H * ?W"
    by (rule outputlen_product [OF assms(4,2,5)])
  then have le: "?H * ?W \<le> outputlen filecontents"
    by simp
  from rows_complete [OF assms(4) le assms(2,3), of junk] obtain copied where
    e: "extract_rows filecontents junk = Some (Copied copied (?H * ?W))"
    and inv: "\<forall>r c. 0 \<le> r \<and> r < ?H \<and> 0 \<le> c \<and> c < ?W \<longrightarrow>
          copied (r * ?W + c) = filecontents (s32 (s32 (row_start filecontents (r + 1)) + c))"
    by force
  let ?out = "map (\<lambda>i. symbol (copied (int i))) [0 ..< nat (?W * ?H)]"
  have nf: "\<not> division_faults filecontents"
    using assms(2) by (simp add: division_faults_def)
  have m: "main filecontents junk = Some (Written ?out)"
    unfolding main_def convert_def using assms(1) nf e ol
    by (simp add: emit_remap mult.commute)
  have "\<forall>r c. 0 \<le> r \<and> r < ?H \<and> 0 \<le> c \<and> c < ?W \<longrightarrow>
          copied (r * ?W + c) = filecontents (s32 (s32 (row_start filecontents (r + 1)) + c))
          \<and> ?out ! nat (r * ?W + c)
            = symbol (filecontents (s32 (s32 (row_start filecontents (r + 1)) + c)))"
  proof (intro allI impI)
    fix r c assume a: "0 \<le> r \<and> r < ?H \<and> 0 \<le> c \<and> c < ?W"
    have lt: "r * ?W + c < ?H * ?W"
      using a assms(4) by (intro index_below) simp_all
    have ge: "0 \<le> r * ?W + c" using a assms(4) by simp
    have "?out ! nat (r * ?W + c) = symbol (copied (r * ?W + c))"
      using lt ge by (simp add: mult.commute)
    then show "copied (r * ?W + c) = filecontents (s32 (s32 (row_start filecontents (r + 1)) + c))
          \<and> ?out ! nat (r * ?W + c)
            = symbol (filecontents (s32 (s32 (row_start filecontents (r + 1)) + c)))"
      using inv a by simp
  qed
  then show ?thesis
    using m e by (intro exI [of _ ?out] exI [of _ copied]) simp
qed

section \<open>The claims\<close>

text \<open>
  C1, as the code has it. Whenever a run that has passed the format check ends in
  \<open>Written\<close>, every byte handed to \<^verbatim>\<open>write\<close> is 0x00, 0x01 or 0x02, and byte \<open>i\<close> is the
  symbol of byte \<open>i\<close> of the output block as the copy loops left it: 0xFF gives 0x00,
  0x00 gives 0x01, any other value gives 0x02. With a height from 1 to \<open>2^31 - 2\<close>, a
  width of 0 or more and a product \<open>height * width\<close> that fits an \<^verbatim>\<open>int\<close>, the run does
  end in \<open>Written\<close>, the copy loops have filled the block with \<open>height * width\<close> source
  bytes, and the byte written for row \<open>r\<close> and column \<open>c\<close> is the symbol of the source
  byte at \<open>row_start (r + 1) + c\<close>. A run ends in \<open>Written\<close> whenever the height is below
  \<open>2^31 - 1\<close>, the division does not fault and the product of a positive height and a
  positive width fits an \<^verbatim>\<open>int\<close>.
\<close>

theorem remap_pass_symbols:
  assumes "bitcount filecontents = 8"
  shows "(\<forall>out. main filecontents junk = Some (Written out) \<longrightarrow>
          (\<exists>copied j. extract_rows filecontents junk = Some (Copied copied j)
             \<and> length out = nat (outputlen filecontents)
             \<and> (\<forall>i < length out. out ! i = symbol (copied (int i))
                    \<and> out ! i \<in> {0x00, 0x01, 0x02})))
     \<and> (1 \<le> height filecontents \<and> height filecontents < 2 ^ 31 - 1
         \<and> 0 \<le> width filecontents
         \<and> height filecontents * width filecontents < 2 ^ 31 \<longrightarrow>
          (\<exists>out copied. main filecontents junk = Some (Written out)
             \<and> extract_rows filecontents junk
                  = Some (Copied copied (height filecontents * width filecontents))
             \<and> length out = nat (width filecontents * height filecontents)
             \<and> (\<forall>r c. 0 \<le> r \<and> r < height filecontents
                      \<and> 0 \<le> c \<and> c < width filecontents \<longrightarrow>
                   copied (r * width filecontents + c)
                     = filecontents (s32 (s32 (row_start filecontents (r + 1)) + c))
                   \<and> out ! nat (r * width filecontents + c)
                     = symbol (filecontents
                         (s32 (s32 (row_start filecontents (r + 1)) + c))))))
     \<and> (height filecontents < 2 ^ 31 - 1 \<and> \<not> division_faults filecontents
         \<and> (1 \<le> height filecontents \<and> 1 \<le> width filecontents \<longrightarrow>
               height filecontents * width filecontents < 2 ^ 31) \<longrightarrow>
          (\<exists>out. main filecontents junk = Some (Written out)))
     \<and> symbol 0xff = 0x00 \<and> symbol 0x00 = 0x01
     \<and> (\<forall>b. b \<noteq> 0xff \<and> b \<noteq> 0x00 \<longrightarrow> symbol b = 0x02)"
proof (intro conjI impI allI)
  fix out
  assume w: "main filecontents junk = Some (Written out)"
  from main_Written [OF w] obtain copied j where
    e: "extract_rows filecontents junk = Some (Copied copied j)" and
    o: "out = map (\<lambda>i. symbol (copied (int i))) [0 ..< nat (outputlen filecontents)]"
    by blast
  have "length out = nat (outputlen filecontents)"
    using o by simp
  moreover have "\<forall>i < length out. out ! i = symbol (copied (int i))
      \<and> out ! i \<in> {0x00, 0x01, 0x02}"
    using o symbol_range by auto
  ultimately show "\<exists>copied j. extract_rows filecontents junk = Some (Copied copied j)
             \<and> length out = nat (outputlen filecontents)
             \<and> (\<forall>i < length out. out ! i = symbol (copied (int i))
                    \<and> out ! i \<in> {0x00, 0x01, 0x02})"
    using e by blast
next
  assume a: "1 \<le> height filecontents \<and> height filecontents < 2 ^ 31 - 1
         \<and> 0 \<le> width filecontents
         \<and> height filecontents * width filecontents < 2 ^ 31"
  then have h: "1 \<le> height filecontents" "height filecontents < 2147483647"
      "0 \<le> width filecontents" "height filecontents * width filecontents < 2147483648"
    by simp_all
  from accepted_copied [OF assms h, of junk]
  show "\<exists>out copied. main filecontents junk = Some (Written out)
             \<and> extract_rows filecontents junk
                  = Some (Copied copied (height filecontents * width filecontents))
             \<and> length out = nat (width filecontents * height filecontents)
             \<and> (\<forall>r c. 0 \<le> r \<and> r < height filecontents
                      \<and> 0 \<le> c \<and> c < width filecontents \<longrightarrow>
                   copied (r * width filecontents + c)
                     = filecontents (s32 (s32 (row_start filecontents (r + 1)) + c))
                   \<and> out ! nat (r * width filecontents + c)
                     = symbol (filecontents
                         (s32 (s32 (row_start filecontents (r + 1)) + c))))" .
next
  assume a: "height filecontents < 2 ^ 31 - 1 \<and> \<not> division_faults filecontents
         \<and> (1 \<le> height filecontents \<and> 1 \<le> width filecontents \<longrightarrow>
               height filecontents * width filecontents < 2 ^ 31)"
  then obtain copied j where "extract_rows filecontents junk = Some (Copied copied j)"
    using extract_rows_returns [of filecontents junk] by auto
  then show "\<exists>out. main filecontents junk = Some (Written out)"
    using a assms unfolding main_def convert_def by simp
next
  show "symbol 0xff = 0x00" and "symbol 0x00 = 0x01"
    by (simp_all add: symbol_def)
next
  fix b :: byte
  assume "b \<noteq> 0xff \<and> b \<noteq> 0x00"
  then show "symbol b = 0x02"
    by (simp add: symbol_def)
qed

theorem remap_pass_symbols_witness:
  "bitcount (load bmp_2x2 zeros) = 8
   \<and> 1 \<le> height (load bmp_2x2 zeros) \<and> height (load bmp_2x2 zeros) < 2 ^ 31 - 1
   \<and> 0 \<le> width (load bmp_2x2 zeros)
   \<and> height (load bmp_2x2 zeros) * width (load bmp_2x2 zeros) < 2 ^ 31
   \<and> main (load bmp_2x2 zeros) zeros = Some (Written [0x01, 0x01, 0x00, 0x02])
   \<and> nat (outputlen (load bmp_2x2 zeros)) = 4
   \<and> copied_count (load bmp_2x2 zeros) zeros = Some 4"
proof -
  have b: "bitcount (load bmp_2x2 zeros) = 8"
    by code_simp
  have h: "1 \<le> height (load bmp_2x2 zeros) \<and> height (load bmp_2x2 zeros) < 2 ^ 31 - 1
      \<and> 0 \<le> width (load bmp_2x2 zeros)
      \<and> height (load bmp_2x2 zeros) * width (load bmp_2x2 zeros) < 2 ^ 31"
    by code_simp
  have p: "height (load bmp_2x2 zeros) * width (load bmp_2x2 zeros) = 4"
    by code_simp
  have run: "main (load bmp_2x2 zeros) zeros = Some (Written [0x01, 0x01, 0x00, 0x02])"
    by code_simp
  show ?thesis
    using remap_pass_symbols [OF b, of zeros] b h p run by (auto simp: copied_count_def)
qed

text \<open>
  C1, as the specification has it, fails on \<open>bmp_negative\<close>, an accepted header of width
  -2 and height -2: the block has 4 bytes, the copy loops copy none, and the bytes
  written are the symbols of what the block held before, whatever the input holds.
\<close>

theorem uncopied_bytes_written:
  "bitcount (load bmp_negative zeros) = 8
   \<and> width (load bmp_negative zeros) = - 2
   \<and> height (load bmp_negative zeros) = - 2
   \<and> outputlen (load bmp_negative zeros) = 4
   \<and> copied_count (load bmp_negative zeros) zeros = Some 0
   \<and> copied_count (load bmp_negative zeros) ones = Some 0
   \<and> main (load bmp_negative zeros) zeros = Some (Written [0x01, 0x01, 0x01, 0x01])
   \<and> main (load bmp_negative zeros) ones = Some (Written [0x00, 0x00, 0x00, 0x00])"
  by code_simp

text \<open>
  C2, as the code has it. Take an input that has passed the format check, with a height
  of 1 or more, a width of 0 or more and a product \<open>width * height\<close> that fits an
  \<^verbatim>\<open>int\<close>. The extraction reaches every \<open>h\<close> from 1 to the height with the source offset
  \<open>row_start h\<close>, reduced to 32 bits, and with \<open>(h - 1) * width\<close> bytes copied. A row copy
  that fits the block moves exactly \<open>width\<close> bytes, those at the offsets \<open>offset\<close> to
  \<open>offset + width - 1\<close>, to the next \<open>width\<close> places of the output and leaves the other
  places as they are. When the height is below \<open>2^31 - 1\<close> the run ends in \<open>Written\<close>
  with \<open>width * height\<close> bytes, the byte of row \<open>r\<close> and column \<open>c\<close> being the symbol of
  the source byte at \<open>row_start (r + 1) + c\<close>. On a consistent header, where the pixel
  data is exactly \<open>height\<close> rows of \<open>width + padding\<close> bytes, the offsets \<open>row_start h\<close>
  fit in 32 bits as they are, output row 0 is the remapped last stored row and output
  row \<open>height - 1\<close> is the remapped first stored row.
\<close>

theorem rows_read_bottom_up:
  assumes "bitcount filecontents = 8" and "1 \<le> height filecontents"
    and "0 \<le> width filecontents"
    and "height filecontents * width filecontents < 2 ^ 31"
  shows "(\<forall>h. 1 \<le> h \<and> h \<le> height filecontents \<longrightarrow>
          (\<exists>out. extract_rows filecontents junk =
             copy_rows filecontents h (s32 (row_start filecontents h)) out
               ((h - 1) * width filecontents)))
   \<and> (\<forall>offset out j. 0 \<le> j \<and> j + width filecontents \<le> outputlen filecontents \<longrightarrow>
        (\<exists>out'. copy_row filecontents offset 0 out j = Copied out' (j + width filecontents)
           \<and> (\<forall>c. 0 \<le> c \<and> c < width filecontents \<longrightarrow>
                  out' (j + c) = filecontents (s32 (offset + c)))
           \<and> (\<forall>a. a < j \<or> j + width filecontents \<le> a \<longrightarrow> out' a = out a)))
   \<and> (height filecontents < 2 ^ 31 - 1 \<longrightarrow>
        (\<exists>out. main filecontents junk = Some (Written out)
           \<and> length out = nat (width filecontents * height filecontents)
           \<and> (\<forall>r c. 0 \<le> r \<and> r < height filecontents
                    \<and> 0 \<le> c \<and> c < width filecontents \<longrightarrow>
                 out ! nat (r * width filecontents + c)
                   = symbol (filecontents (s32 (s32 (row_start filecontents (r + 1)) + c))))))
   \<and> (consistent filecontents \<longrightarrow>
        (\<forall>h. 1 \<le> h \<and> h \<le> height filecontents \<longrightarrow>
           s32 (row_start filecontents h) = row_start filecontents h)
        \<and> (\<exists>out. main filecontents junk = Some (Written out)
             \<and> output_row filecontents out 0
                 = map symbol (stored_row filecontents (height filecontents - 1))
             \<and> output_row filecontents out (height filecontents - 1)
                 = map symbol (stored_row filecontents 0)))"
proof (intro conjI impI allI)
  have p: "height filecontents * width filecontents < 2147483648"
    using assms(4) by simp
  have ol: "height filecontents * width filecontents \<le> outputlen filecontents"
    using outputlen_product [OF assms(3,2) p] by simp
  {
    fix h
    assume "1 \<le> h \<and> h \<le> height filecontents"
    then show "\<exists>out. extract_rows filecontents junk =
             copy_rows filecontents h (s32 (row_start filecontents h)) out
               ((h - 1) * width filecontents)"
      using rows_reach [OF assms(3) ol, of h junk] by blast
  }
  {
    fix offset out j
    assume "0 \<le> j \<and> j + width filecontents \<le> outputlen filecontents"
    then show "\<exists>out'. copy_row filecontents offset 0 out j = Copied out' (j + width filecontents)
           \<and> (\<forall>c. 0 \<le> c \<and> c < width filecontents \<longrightarrow>
                  out' (j + c) = filecontents (s32 (offset + c)))
           \<and> (\<forall>a. a < j \<or> j + width filecontents \<le> a \<longrightarrow> out' a = out a)"
      using copy_row_from [of 0 filecontents j offset out] assms(3) by simp
  }
  {
    assume "height filecontents < 2 ^ 31 - 1"
    then have "height filecontents < 2147483647"
      by simp
    from accepted_run [OF assms(1,2) this assms(3) p]
    show "\<exists>out. main filecontents junk = Some (Written out)
           \<and> length out = nat (width filecontents * height filecontents)
           \<and> (\<forall>r c. 0 \<le> r \<and> r < height filecontents
                    \<and> 0 \<le> c \<and> c < width filecontents \<longrightarrow>
                 out ! nat (r * width filecontents + c)
                   = symbol (filecontents (s32 (s32 (row_start filecontents (r + 1)) + c))))" .
  }
  {
    fix h
    assume "consistent filecontents" and "1 \<le> h \<and> h \<le> height filecontents"
    then show "s32 (row_start filecontents h) = row_start filecontents h"
      by (intro row_start_fits) simp_all
  }
  {
    assume c: "consistent filecontents"
    note f = consistent_facts [OF c]
    have "main filecontents junk = Some (Written (spec_output filecontents))"
      by (rule consistent_run [OF c])
    moreover have "output_row filecontents (spec_output filecontents) 0
                 = map symbol (stored_row filecontents (height filecontents - 1))"
      using output_row_spec [OF f(3), of 0] f(4) by simp
    moreover have "output_row filecontents (spec_output filecontents) (height filecontents - 1)
                 = map symbol (stored_row filecontents 0)"
      using output_row_spec [OF f(3), of "height filecontents - 1"] f(4) by simp
    ultimately show "\<exists>out. main filecontents junk = Some (Written out)
             \<and> output_row filecontents out 0
                 = map symbol (stored_row filecontents (height filecontents - 1))
             \<and> output_row filecontents out (height filecontents - 1)
                 = map symbol (stored_row filecontents 0)"
      by blast
  }
qed

theorem rows_read_bottom_up_witness:
  "bitcount (load bmp_padded zeros) = 8
   \<and> 1 \<le> height (load bmp_padded zeros)
   \<and> 0 \<le> width (load bmp_padded zeros)
   \<and> height (load bmp_padded zeros) * width (load bmp_padded zeros) < 2 ^ 31
   \<and> consistent (load bmp_padded zeros)
   \<and> main (load bmp_padded zeros) zeros = Some (Written [0x01, 0x00, 0x00, 0x02])
   \<and> output_row (load bmp_padded zeros) [0x01, 0x00, 0x00, 0x02] 0
       = map symbol (stored_row (load bmp_padded zeros) (height (load bmp_padded zeros) - 1))
   \<and> output_row (load bmp_padded zeros) [0x01, 0x00, 0x00, 0x02]
         (height (load bmp_padded zeros) - 1)
       = map symbol (stored_row (load bmp_padded zeros) 0)
   \<and> s32 (row_start (load bmp_padded zeros) 1) = row_start (load bmp_padded zeros) 1"
proof -
  have b: "bitcount (load bmp_padded zeros) = 8"
    by code_simp
  have h: "1 \<le> height (load bmp_padded zeros)"
      "0 \<le> width (load bmp_padded zeros)"
      "height (load bmp_padded zeros) * width (load bmp_padded zeros) < 2 ^ 31"
    by code_simp+
  have c: "consistent (load bmp_padded zeros)"
    by code_simp
  have run: "main (load bmp_padded zeros) zeros = Some (Written [0x01, 0x00, 0x00, 0x02])"
    by code_simp
  show ?thesis
    using rows_read_bottom_up [OF b h, of zeros] b h c run by auto
qed

text \<open>
  C2, as the specification has it, fails on \<open>bmp_inexact\<close>, an accepted input of height 2
  whose pixel data size is not a whole number of rows: the padding comes out as
  \<open>(9 - 2) / 2 = 3\<close>, the two rows are read one byte too far, and neither output row is
  the remapped stored row.
\<close>

theorem inexact_size_shifts_rows:
  "bitcount (load bmp_inexact zeros) = 8
   \<and> height (load bmp_inexact zeros) = 2
   \<and> main (load bmp_inexact zeros) zeros = Some (Written [0x01, 0x01])
   \<and> output_row (load bmp_inexact zeros) [0x01, 0x01] 0 = [0x01]
   \<and> map symbol (stored_row (load bmp_inexact zeros) (height (load bmp_inexact zeros) - 1))
       = [0x02]
   \<and> output_row (load bmp_inexact zeros) [0x01, 0x01] (height (load bmp_inexact zeros) - 1)
       = [0x01]
   \<and> map symbol (stored_row (load bmp_inexact zeros) 0) = [0x00]"
  by code_simp

text \<open>
  C3. A valid input is a buffer that holds the header fields (38 bytes at least), whose
  header is consistent (as the headers of the usual layout are) and whose pixel data lies
  inside the buffer. On it the run ends in
  \<open>Written\<close> with exactly \<open>width * height\<close> bytes, and the byte at row \<open>r\<close>, column \<open>c\<close>
  is the symbol of the pixel at column \<open>c\<close> of stored row \<open>height - 1 - r\<close>, with
  \<open>c < width\<close>: none of the padding bytes, which have the columns from \<open>width\<close> on.
\<close>

theorem output_length_valid:
  assumes "38 \<le> length file" and "consistent (load file beyond)"
    and "paintoffset (load file beyond) + bytebuffer (load file beyond) \<le> int (length file)"
  shows "\<exists>out. main (load file beyond) junk = Some (Written out)
     \<and> length out = nat (width (load file beyond) * height (load file beyond))
     \<and> (\<forall>r c. 0 \<le> r \<and> r < height (load file beyond)
              \<and> 0 \<le> c \<and> c < width (load file beyond) \<longrightarrow>
           nat (r * width (load file beyond) + c) < length out
           \<and> out ! nat (r * width (load file beyond) + c) =
             symbol (file ! nat (paintoffset (load file beyond)
               + (height (load file beyond) - 1 - r)
                 * (width (load file beyond) + wastedpixelsperline (load file beyond)) + c)))"
proof (intro exI conjI allI impI)
  show "main (load file beyond) junk = Some (Written (spec_output (load file beyond)))"
    by (rule consistent_run [OF assms(2)])
  show "length (spec_output (load file beyond))
      = nat (width (load file beyond) * height (load file beyond))"
    by (rule spec_output_length)
next
  fix r c
  assume a: "0 \<le> r \<and> r < height (load file beyond) \<and> 0 \<le> c \<and> c < width (load file beyond)"
  show "nat (r * width (load file beyond) + c) < length (spec_output (load file beyond))"
    using spec_output_nth(1) [OF consistent_facts(3) [OF assms(2)], of r c] a by simp
  show "spec_output (load file beyond) ! nat (r * width (load file beyond) + c) =
             symbol (file ! nat (paintoffset (load file beyond)
               + (height (load file beyond) - 1 - r)
                 * (width (load file beyond) + wastedpixelsperline (load file beyond)) + c))"
    using spec_output_inside [OF assms(2,3), of r c] a by simp
qed

theorem output_length_valid_witness:
  "38 \<le> length bmp_padded
   \<and> consistent (load bmp_padded zeros)
   \<and> paintoffset (load bmp_padded zeros) + bytebuffer (load bmp_padded zeros)
       \<le> int (length bmp_padded)
   \<and> main (load bmp_padded zeros) ones = Some (Written [0x01, 0x00, 0x00, 0x02])
   \<and> length [0x01, 0x00, 0x00, 0x02 :: byte]
       = nat (width (load bmp_padded zeros) * height (load bmp_padded zeros))"
proof -
  have l: "38 \<le> length bmp_padded"
    by (simp add: bmp_padded_def)
  have c: "consistent (load bmp_padded zeros)"
    by code_simp
  have i: "paintoffset (load bmp_padded zeros) + bytebuffer (load bmp_padded zeros)
       \<le> int (length bmp_padded)"
    by code_simp
  have run: "main (load bmp_padded zeros) ones = Some (Written [0x01, 0x00, 0x00, 0x02])"
    by code_simp
  show ?thesis
    using output_length_valid [OF l c i, of ones] l c i run by auto
qed

text \<open>
  C4. The bits-per-pixel field is the two bytes at 0x1C and 0x1D, low byte first. When it
  is not 8 the run ends at line 41 with the outcome \<open>Rejected\<close>, whatever the rest of
  the input and the output store hold: nothing is extracted, remapped or written.
\<close>

theorem other_depths_rejected:
  "bitcount filecontents = uint (filecontents 0x1c) + 256 * uint (filecontents 0x1d)
   \<and> (bitcount filecontents \<noteq> 8 \<longrightarrow> main filecontents junk = Some Rejected)"
  by (simp add: bitcount_bytes main_def)

theorem other_depths_rejected_witness:
  "bitcount (load bmp_24bit zeros) = 24 \<and> main (load bmp_24bit zeros) zeros = Some Rejected"
proof -
  have b: "bitcount (load bmp_24bit zeros) = 24"
    by code_simp
  then show ?thesis
    using other_depths_rejected [of "load bmp_24bit zeros" zeros] by simp
qed

text \<open>
  C5, as the code has it. With 8 bits per pixel and a height of 0 nothing rejects the
  input: the run reaches the division of line 44 with the divisor 0 and ends there in a
  divide error, with no message and no output.
\<close>

theorem zero_height_divides:
  assumes "bitcount filecontents = 8" and "height filecontents = 0"
  shows "main filecontents junk = Some DivideError"
  using assms by (simp add: main_def convert_def division_faults_def)

theorem zero_height_divides_witness:
  "bitcount (load bmp_h0 zeros) = 8 \<and> height (load bmp_h0 zeros) = 0
   \<and> main (load bmp_h0 zeros) ones = Some DivideError"
proof -
  have b: "bitcount (load bmp_h0 zeros) = 8"
    by code_simp
  have h: "height (load bmp_h0 zeros) = 0"
    by code_simp
  show ?thesis
    using zero_height_divides [OF b h, of ones] b h by simp
qed

text \<open>
  C5, as the specification has it, fails on the header \<open>bmp_h0\<close>: the run is not
  rejected, it divides by the height.
\<close>

theorem zero_height_not_rejected:
  "bitcount (load bmp_h0 zeros) = 8 \<and> height (load bmp_h0 zeros) = 0
   \<and> main (load bmp_h0 zeros) zeros = Some DivideError
   \<and> main (load bmp_h0 zeros) zeros \<noteq> Some Rejected"
  by code_simp

text \<open>
  C6, as the code has it. No read is checked against the length of the buffer, which
  neither hiread nor the loops receive. What holds is that the reads stay inside the
  buffer, so that the result is the same whatever the memory around the buffer holds:
  for hiread when \<open>offset\<close> is not negative and \<open>offset + length\<close> is within the length
  of the buffer; for the whole run when the buffer holds the header fields, the header is
  consistent and the pixel data it announces ends within the buffer.
\<close>

theorem reads_inside_when_consistent:
  "(0 \<le> offset \<and> offset + len \<le> int (length file) \<and> int (length file) \<le> 2 ^ 31 \<longrightarrow>
      hiread (load file b1) offset len = hiread (load file b2) offset len)
   \<and> (38 \<le> length file \<and> consistent (load file b1)
       \<and> paintoffset (load file b1) + bytebuffer (load file b1) \<le> int (length file) \<longrightarrow>
      main (load file b1) junk = main (load file b2) junk)"
proof (intro conjI impI)
  assume "0 \<le> offset \<and> offset + len \<le> int (length file) \<and> int (length file) \<le> 2 ^ 31"
  then show "hiread (load file b1) offset len = hiread (load file b2) offset len"
    by (intro hiread_inside) simp_all
next
  assume a: "38 \<le> length file \<and> consistent (load file b1)
       \<and> paintoffset (load file b1) + bytebuffer (load file b1) \<le> int (length file)"
  then have c2: "consistent (load file b2)"
    using header_inside(7) [of "file" b1 b2] by simp
  have "spec_output (load file b1) = spec_output (load file b2)"
    using a by (intro spec_output_frame) simp_all
  then show "main (load file b1) junk = main (load file b2) junk"
    using a c2 by (simp add: consistent_run)
qed

theorem reads_inside_when_consistent_witness:
  "38 \<le> length bmp_padded
   \<and> consistent (load bmp_padded zeros)
   \<and> paintoffset (load bmp_padded zeros) + bytebuffer (load bmp_padded zeros)
       \<le> int (length bmp_padded)
   \<and> int (length bmp_padded) \<le> 2 ^ 31
   \<and> hiread (load bmp_padded zeros) 0x12 4 = hiread (load bmp_padded ones) 0x12 4
   \<and> main (load bmp_padded zeros) zeros = main (load bmp_padded ones) zeros"
proof -
  have l: "38 \<le> length bmp_padded" "int (length bmp_padded) \<le> 2 ^ 31"
      "0x12 + 4 \<le> int (length bmp_padded)"
    by (simp_all add: bmp_padded_def)
  have c: "consistent (load bmp_padded zeros)"
    by code_simp
  have i: "paintoffset (load bmp_padded zeros) + bytebuffer (load bmp_padded zeros)
       \<le> int (length bmp_padded)"
    by code_simp
  show ?thesis
    using reads_inside_when_consistent [of "0x12" 4 bmp_padded zeros ones zeros] l c i by simp
qed

text \<open>
  C6, as the specification has it, fails on \<open>bmp_truncated\<close>, a buffer of 56 bytes whose
  header places the top row at the offsets 56 and 57: the run does not abort, it writes
  the symbols of the two bytes that follow the buffer in memory (0x00 and 0x00, or 0xFF
  and 0xFF). And hiread, asked for 4 bytes of a buffer of 2, returns a value made of the
  two bytes that follow the buffer.
\<close>

theorem reads_outside_buffer:
  "length bmp_truncated = 56
   \<and> paintoffset (load bmp_truncated zeros) + bytebuffer (load bmp_truncated zeros) = 58
   \<and> main (load bmp_truncated zeros) zeros = Some (Written [0x01, 0x01, 0x00, 0x02])
   \<and> main (load bmp_truncated ones) zeros = Some (Written [0x00, 0x00, 0x00, 0x02])
   \<and> hiread (load [0x01, 0x02] zeros) 0 4 = 513
   \<and> hiread (load [0x01, 0x02] ones) 0 4 = - 65023"
  by code_simp

text \<open>
  C7, as the code has it. For a length from 1 to 4 and bytes inside the buffer, hiread
  returns the little-endian sum when that is below \<open>2^31\<close>, and the sum minus \<open>2^32\<close>
  otherwise, the result being an \<^verbatim>\<open>int\<close>. The sum is below \<open>2^31\<close> exactly when the length
  is at most 3 or the fourth byte is below 0x80.
\<close>

theorem hiread_little_endian:
  assumes "1 \<le> len" and "len \<le> 4" and "0 \<le> offset"
    and "offset + len \<le> int (length file)" and "int (length file) \<le> 2 ^ 31"
  shows "hiread (load file beyond) offset len =
           (if le_sum file (nat offset) (nat len) < 2 ^ 31
            then le_sum file (nat offset) (nat len)
            else le_sum file (nat offset) (nat len) - 2 ^ 32)
       \<and> (le_sum file (nat offset) (nat len) < 2 ^ 31
            \<longleftrightarrow> len \<le> 3 \<or> file ! (nat offset + 3) < 0x80)"
proof -
  let ?v = "le_sum file (nat offset) (nat len)"
  note b = le_sum_bounds [OF assms(1,2), of "file" "nat offset"]
  have h: "hiread (load file beyond) offset len = s32 ?v"
    using hiread_le_sum [OF assms(1,2,3,4)] assms(5) by simp
  have "s32 ?v = (if ?v < 2 ^ 31 then ?v else ?v - 2 ^ 32)"
  proof (cases "?v < 2147483648")
    case True
    then have "s32 ?v = ?v" using b(1) by (intro s32_id_num) linarith+
    then show ?thesis using True by simp
  next
    case False
    then have "s32 ?v = ?v - 2 ^ 32" using b(2) by (intro s32_high) simp_all
    then show ?thesis using False by simp
  qed
  then show ?thesis
    using h b(3) by simp
qed

theorem hiread_little_endian_witness:
  "(1 :: int) \<le> 4 \<and> (0 :: int) \<le> 0x22 \<and> 0x22 + 4 \<le> int (length bmp_padded)
   \<and> int (length bmp_padded) \<le> 2 ^ 31
   \<and> le_sum bmp_padded 0x22 4 = 8
   \<and> hiread (load bmp_padded zeros) 0x22 4 = 8"
proof -
  have l: "0x22 + 4 \<le> int (length bmp_padded)" "int (length bmp_padded) \<le> 2 ^ 31"
    by (simp_all add: bmp_padded_def)
  have v: "le_sum bmp_padded 0x22 4 = 8"
    by code_simp
  show ?thesis
    using hiread_little_endian [of 4 "0x22" bmp_padded zeros] l v by simp
qed

text \<open>
  C7, as the specification has it, fails on the height field of \<open>bmp_topdown\<close>, the bytes
  FE FF FF FF: the little-endian sum is 4294967294 and hiread returns -2.
\<close>

theorem hiread_top_bit:
  "length bmp_topdown = 58
   \<and> hiread (load bmp_topdown zeros) 0x16 4 = - 2
   \<and> le_sum bmp_topdown 0x16 4 = 4294967294"
  by code_simp

text \<open>
  C8, as the code has it. Applying the symbol mapping twice gives the same as applying it
  once exactly for the bytes other than 0x00 and 0xFF.
\<close>

theorem symbol_twice:
  "symbol (symbol b) = symbol b \<longleftrightarrow> b \<noteq> 0x00 \<and> b \<noteq> 0xff"
  by (simp add: symbol_def)

theorem symbol_twice_witness:
  "symbol (symbol 0x10) = symbol 0x10 \<and> symbol (symbol 0x00) \<noteq> symbol 0x00"
  using symbol_twice [of "0x10"] symbol_twice [of "0x00"] by simp

text \<open>
  C8, as the specification has it, fails at 0xFF: its symbol is 0x00, whose symbol is 0x01.
\<close>

theorem symbol_not_idempotent:
  "symbol (symbol 0xff) = 0x01 \<and> symbol 0xff = 0x00"
  by (simp add: symbol_def)

text \<open>
  C9. A 4-byte read inside the buffer whose fourth byte is 0x80 or more returns the
  little-endian sum minus \<open>2^32\<close>, a negative number. Read at 0x0A, 0x12, 0x16 or 0x22
  it makes \<open>paintoffset\<close>, \<open>width\<close>, \<open>height\<close> or \<open>bytebuffer\<close> negative.
\<close>

theorem hiread_negative:
  assumes "0 \<le> offset" and "offset + 4 \<le> int (length file)"
    and "int (length file) \<le> 2 ^ 31" and "0x80 \<le> file ! (nat offset + 3)"
  shows "hiread (load file beyond) offset 4 = le_sum file (nat offset) 4 - 2 ^ 32
     \<and> hiread (load file beyond) offset 4 < 0
     \<and> (offset = 0x0a \<longrightarrow> paintoffset (load file beyond) < 0)
     \<and> (offset = 0x12 \<longrightarrow> width (load file beyond) < 0)
     \<and> (offset = 0x16 \<longrightarrow> height (load file beyond) < 0)
     \<and> (offset = 0x22 \<longrightarrow> bytebuffer (load file beyond) < 0)"
proof -
  let ?v = "le_sum file (nat offset) 4"
  have b: "0 \<le> ?v" "?v < 4294967296"
      "?v < 2147483648 \<longleftrightarrow> (4 :: int) \<le> 3 \<or> file ! (nat offset + 3) < 0x80"
    using le_sum_bounds [of 4 "file" "nat offset"] by simp_all
  have "\<not> file ! (nat offset + 3) < 0x80"
    using assms(4) by (simp add: not_less)
  then have "\<not> ?v < 2147483648"
    using b(3) by simp
  then have hi: "2147483648 \<le> ?v"
    by linarith
  have "hiread (load file beyond) offset 4 = s32 ?v"
    using hiread_le_sum [of 4 offset "file" beyond] assms by simp
  also have "\<dots> = ?v - 2 ^ 32"
    using hi b(2) by (intro s32_high) simp_all
  finally have r: "hiread (load file beyond) offset 4 = ?v - 2 ^ 32" .
  then have n: "hiread (load file beyond) offset 4 < 0"
    using b(2) by simp
  have "(offset = 0x0a \<longrightarrow> paintoffset (load file beyond) < 0)
     \<and> (offset = 0x12 \<longrightarrow> width (load file beyond) < 0)
     \<and> (offset = 0x16 \<longrightarrow> height (load file beyond) < 0)
     \<and> (offset = 0x22 \<longrightarrow> bytebuffer (load file beyond) < 0)"
    using n by (auto simp: paintoffset_def width_def height_def bytebuffer_def)
  then show ?thesis
    using r n by blast
qed

theorem hiread_negative_witness:
  "0x16 + 4 \<le> int (length bmp_topdown)
   \<and> int (length bmp_topdown) \<le> 2 ^ 31
   \<and> 0x80 \<le> bmp_topdown ! 0x19
   \<and> hiread (load bmp_topdown zeros) 0x16 4 = le_sum bmp_topdown 0x16 4 - 2 ^ 32
   \<and> height (load bmp_topdown zeros) < 0"
proof -
  have l: "0x16 + 4 \<le> int (length bmp_topdown)" "int (length bmp_topdown) \<le> 2 ^ 31"
    by (simp_all add: bmp_topdown_def)
  have t: "0x80 \<le> bmp_topdown ! 0x19"
    by (simp add: bmp_topdown_def)
  show ?thesis
    using hiread_negative [of "0x16" bmp_topdown zeros] l t by simp
qed

text \<open>
  C10. Two input buffers that hold the same bytes at 0x1C and 0x1D are either both
  rejected at line 41 or both go on to lines 42 to 66, whatever their other bytes, the
  memory around them and the output store hold.
\<close>

theorem format_check_two_bytes:
  assumes "30 \<le> length f1" and "30 \<le> length f2"
    and "f1 ! 28 = f2 ! 28" and "f1 ! 29 = f2 ! 29"
  shows "(main (load f1 b1) j1 = Some Rejected \<and> main (load f2 b2) j2 = Some Rejected)
       \<or> (main (load f1 b1) j1 = convert (load f1 b1) j1
          \<and> convert (load f1 b1) j1 \<noteq> Some Rejected
          \<and> main (load f2 b2) j2 = convert (load f2 b2) j2
          \<and> convert (load f2 b2) j2 \<noteq> Some Rejected)"
proof -
  have "bitcount (load f1 b1) = bitcount (load f2 b2)"
    using assms by (simp add: bitcount_bytes load_def)
  then show ?thesis
    by (auto simp: main_def convert_not_Rejected)
qed

theorem format_check_two_bytes_witness:
  "30 \<le> length bmp_2x2 \<and> 30 \<le> length bmp_h0
   \<and> bmp_2x2 ! 28 = bmp_h0 ! 28 \<and> bmp_2x2 ! 29 = bmp_h0 ! 29
   \<and> bmp_2x2 \<noteq> bmp_h0
   \<and> main (load bmp_2x2 zeros) zeros = Some (Written [0x01, 0x01, 0x00, 0x02])
   \<and> main (load bmp_h0 ones) ones = convert (load bmp_h0 ones) ones
   \<and> main (load bmp_h0 ones) ones \<noteq> Some Rejected"
proof -
  have l: "30 \<le> length bmp_2x2" "30 \<le> length bmp_h0"
    by (simp_all add: bmp_2x2_def bmp_h0_def)
  have e: "bmp_2x2 ! 28 = bmp_h0 ! 28" "bmp_2x2 ! 29 = bmp_h0 ! 29"
    by (simp_all add: bmp_2x2_def bmp_h0_def)
  have d: "bmp_2x2 \<noteq> bmp_h0"
    by (simp add: bmp_2x2_def bmp_h0_def)
  have run: "main (load bmp_2x2 zeros) zeros = Some (Written [0x01, 0x01, 0x00, 0x02])"
    by code_simp
  show ?thesis
    using format_check_two_bytes [OF l e, of zeros zeros ones ones] l e d run by auto
qed

end
